theory Spec2Isabelle
  imports Complex_Main "HOL-Library.Log_Nat" "HOL-Library.Sublist"
begin

section \<open>JavaScript numbers\<close>

text \<open>
  A JavaScript \<open>number\<close> is an IEEE 754 binary64 value.  The recommendation engine only
  ever produces finite values of magnitude at most 1 (scores, ratios of set sizes and
  differences of scores), so a number is modelled by the rational it denotes, and every
  arithmetic operation computes the exact result and rounds it to the nearest value with a
  53-bit significand, ties to the even significand.  The exponent range is not modelled:
  no operation of the engine overflows, and a ratio of set sizes is far above the
  subnormal range.  A set size is an integer below \<open>2 ^ 53\<close> and is converted exactly.
\<close>

type_synonym number = rat

definition round_half_even :: "rat \<Rightarrow> int" where
  "round_half_even r =
     (let f = \<lfloor>r\<rfloor>; d = r - of_int f
      in if d < 1 / 2 then f
         else if 1 / 2 < d then f + 1
         else if even f then f else f + 1)"

text \<open>The binary exponent of a positive rational: \<open>2 ^ ilog2 x \<le> x < 2 ^ (ilog2 x + 1)\<close>.\<close>

definition ilog2 :: "rat \<Rightarrow> int" where
  "ilog2 x =
     (if 1 \<le> x then int (floorlog 2 (nat \<lfloor>x\<rfloor>)) - 1
      else - int (floorlog 2 (nat (\<lceil>1 / x\<rceil> - 1))))"

definition round_pos :: "rat \<Rightarrow> rat" where
  "round_pos x =
     (let k = ilog2 x - 52
      in of_int (round_half_even (x * power_int 2 (- k))) * power_int 2 k)"

definition to_double :: "rat \<Rightarrow> number" where
  "to_double x =
     (if x = 0 then 0
      else if x < 0 then - round_pos (- x)
      else round_pos x)"

definition fadd :: "number \<Rightarrow> number \<Rightarrow> number" where
  "fadd x y = to_double (x + y)"

definition fsub :: "number \<Rightarrow> number \<Rightarrow> number" where
  "fsub x y = to_double (x - y)"

definition fmul :: "number \<Rightarrow> number \<Rightarrow> number" where
  "fmul x y = to_double (x * y)"

definition fdiv :: "number \<Rightarrow> number \<Rightarrow> number" where
  "fdiv x y = to_double (x / y)"

text \<open>The decimal literals of the source denote the nearest binary64 values.\<close>

definition lit_0_4 :: number where "lit_0_4 = to_double (4 / 10)"
definition lit_0_3 :: number where "lit_0_3 = to_double (3 / 10)"
definition lit_0_2 :: number where "lit_0_2 = to_double (2 / 10)"
definition lit_0_1 :: number where "lit_0_1 = to_double (1 / 10)"

section \<open>Strings, arrays and sets of the JavaScript library\<close>

text \<open>
  Strings are sequences of code units below 256 (ASCII and Latin-1).  On these,
  \<open>String.prototype.toLowerCase\<close> maps \<open>A\<close>--\<open>Z\<close> and the upper-case letters
  \<open>0xC0\<close>--\<open>0xDE\<close> (without the multiplication sign \<open>0xD7\<close>) to the code unit 32
  above and leaves everything else unchanged.
\<close>

definition lower_char :: "char \<Rightarrow> char" where
  "lower_char c =
     (let n = (of_char c :: nat)
      in if (65 \<le> n \<and> n \<le> 90) \<or> (192 \<le> n \<and> n \<le> 222 \<and> n \<noteq> 215)
         then char_of (n + 32) else c)"

definition toLowerCase :: "string \<Rightarrow> string" where
  "toLowerCase s = map lower_char s"

text \<open>
  A \<open>Set\<close> keeps its elements in insertion order without duplicates; it is modelled by
  the list of its elements in iteration order.  The constructor adds the elements of
  the iterable one by one; \<open>add\<close> ignores an element that is already present.
\<close>

definition set_add :: "'a list \<Rightarrow> 'a \<Rightarrow> 'a list" where
  "set_add s x = (if x \<in> set s then s else s @ [x])"

definition new_Set :: "'a list \<Rightarrow> 'a list" where
  "new_Set xs = foldl set_add [] xs"

definition has :: "'a list \<Rightarrow> 'a \<Rightarrow> bool" where
  "has s x = (x \<in> set s)"

definition size_Set :: "'a list \<Rightarrow> nat" where
  "size_Set s = length s"

text \<open>
  \<open>Array.prototype.slice(start, end)\<close> on integer arguments: a negative index counts
  from the end of the array, and both indices are clamped to the array.
\<close>

definition slice :: "'a list \<Rightarrow> int \<Rightarrow> int \<Rightarrow> 'a list" where
  "slice xs start fin =
     (let len = int (length xs);
          k = (if start < 0 then max (len + start) 0 else min start len);
          final = (if fin < 0 then max (len + fin) 0 else min fin len)
      in take (nat (final - k)) (drop (nat k) xs))"

fun join :: "string list \<Rightarrow> string \<Rightarrow> string" where
  "join [] sep = []"
| "join [x] sep = x"
| "join (x # y # ys) sep = x @ sep @ join (y # ys) sep"

text \<open>
  \<open>Array.prototype.sort(comparefn)\<close> is a stable sort.  For a comparison function that
  is a consistent ordering the result is determined by that alone, so the sort is
  modelled by insertion sort: an element goes before the first element of the sorted
  rest that it does not have to follow.
\<close>

fun sort_insert :: "('a \<Rightarrow> 'a \<Rightarrow> number) \<Rightarrow> 'a \<Rightarrow> 'a list \<Rightarrow> 'a list" where
  "sort_insert cmp x [] = [x]"
| "sort_insert cmp x (y # ys) =
     (if cmp x y \<le> 0 then x # y # ys else y # sort_insert cmp x ys)"

fun array_sort :: "('a \<Rightarrow> 'a \<Rightarrow> number) \<Rightarrow> 'a list \<Rightarrow> 'a list" where
  "array_sort cmp [] = []"
| "array_sort cmp (x # xs) = sort_insert cmp x (array_sort cmp xs)"

section \<open>Recipes and recommendations\<close>

record Recipe =
  id_recipe :: string
  name :: string
  ingredients :: "string list"
  instructions :: "string list"
  cuisine :: string
  category :: string
  image_url :: string
  youtube :: "string option"
  source :: "string option"
  tags :: "string list"

record RecommendationScore =
  recipe :: Recipe
  score :: number
  reasons :: "string list"

subsection \<open>The recommendation engine\<close>

definition calculateSimilarity :: "Recipe \<Rightarrow> Recipe \<Rightarrow> number" where
  "calculateSimilarity targetRecipe candidateRecipe =
     (let score0 = 0;
          score1 = (if cuisine targetRecipe = cuisine candidateRecipe
                    then fadd score0 lit_0_4 else score0);
          score2 = (if category targetRecipe = category candidateRecipe
                    then fadd score1 lit_0_3 else score1);
          targetTags = new_Set (map toLowerCase (tags targetRecipe));
          candidateTags = new_Set (map toLowerCase (tags candidateRecipe));
          tagIntersection = new_Set (filter (\<lambda>tag. has candidateTags tag) targetTags);
          tagUnion = new_Set (targetTags @ candidateTags);
          score3 = (if size_Set tagUnion > 0
                    then let tagSimilarity =
                               fdiv (of_nat (size_Set tagIntersection)) (of_nat (size_Set tagUnion))
                         in fadd score2 (fmul tagSimilarity lit_0_2)
                    else score2);
          targetIngredients = new_Set (map toLowerCase (ingredients targetRecipe));
          candidateIngredients = new_Set (map toLowerCase (ingredients candidateRecipe));
          ingredientIntersection =
            new_Set (filter (\<lambda>ing. has candidateIngredients ing) targetIngredients);
          ingredientUnion = new_Set (targetIngredients @ candidateIngredients);
          score4 = (if size_Set ingredientUnion > 0
                    then let ingredientSimilarity =
                               fdiv (of_nat (size_Set ingredientIntersection))
                                    (of_nat (size_Set ingredientUnion))
                         in fadd score3 (fmul ingredientSimilarity lit_0_1)
                    else score3)
      in score4)"

definition generateReasons :: "Recipe \<Rightarrow> Recipe \<Rightarrow> string list" where
  "generateReasons targetRecipe candidateRecipe =
     (let reasons0 = [];
          reasons1 = (if cuisine targetRecipe = cuisine candidateRecipe
                      then reasons0 @ [''Same cuisine ('' @ cuisine targetRecipe @ '')'']
                      else reasons0);
          reasons2 = (if category targetRecipe = category candidateRecipe
                      then reasons1 @ [''Same category ('' @ category targetRecipe @ '')'']
                      else reasons1);
          targetTags = new_Set (map toLowerCase (tags targetRecipe));
          candidateTags = new_Set (map toLowerCase (tags candidateRecipe));
          commonTags = filter (\<lambda>tag. has candidateTags tag) targetTags;
          reasons3 = (if length commonTags > 0
                      then reasons2 @ [''Similar tags: '' @ join (slice commonTags 0 3) '', '']
                      else reasons2);
          targetIngredients = new_Set (map toLowerCase (ingredients targetRecipe));
          candidateIngredients = new_Set (map toLowerCase (ingredients candidateRecipe));
          commonIngredients = filter (\<lambda>ing. has candidateIngredients ing) targetIngredients;
          reasons4 = (if length commonIngredients > 0
                      then reasons3 @
                           [''Similar ingredients: '' @ join (slice commonIngredients 0 2) '', '']
                      else reasons3)
      in if length reasons4 > 0 then reasons4 else [''Similar recipe''])"

text \<open>
  The body of the \<open>forEach\<close> loop of \<open>getRecommendations\<close>: a candidate whose score
  exceeds 0.1 is pushed onto the array of recommendations.
\<close>

definition push_candidate ::
  "Recipe \<Rightarrow> RecommendationScore list \<Rightarrow> Recipe \<Rightarrow> RecommendationScore list" where
  "push_candidate targetRecipe recommendations candidateRecipe =
     (let s = calculateSimilarity targetRecipe candidateRecipe
      in if s > lit_0_1
         then recommendations @
              [\<lparr>recipe = candidateRecipe, score = s,
                reasons = generateReasons targetRecipe candidateRecipe\<rparr>]
         else recommendations)"

text \<open>The array of recommendations when the loop has finished, before it is sorted.\<close>

definition scored_candidates :: "Recipe \<Rightarrow> Recipe list \<Rightarrow> RecommendationScore list" where
  "scored_candidates targetRecipe allRecipes =
     (let candidateRecipes =
            filter (\<lambda>recipe. id_recipe recipe \<noteq> id_recipe targetRecipe) allRecipes
      in foldl (push_candidate targetRecipe) [] candidateRecipes)"

definition by_score_desc :: "RecommendationScore \<Rightarrow> RecommendationScore \<Rightarrow> number" where
  "by_score_desc a b = fsub (score b) (score a)"

definition getRecommendations ::
  "Recipe \<Rightarrow> Recipe list \<Rightarrow> int \<Rightarrow> RecommendationScore list" where
  "getRecommendations targetRecipe allRecipes maxRecommendations =
     slice (array_sort by_score_desc (scored_candidates targetRecipe allRecipes))
       0 maxRecommendations"

subsection \<open>The recommendations route of the server\<close>

text \<open>
  The route \<open>GET /api/recipes/:id/recommendations\<close> of \<open>server.js\<close> scores the
  candidates itself.  The callback of its \<open>map\<close> computes score and reasons of one
  candidate together; the pipeline then filters, sorts and slices.  The candidates are the
  rows of the query \<open>WHERE id != ?\<close>, their comma-separated ingredients and tags split
  into arrays by \<open>processRecipe\<close>, and the limit is the result of \<open>parseInt\<close>, which is
  \<open>NaN\<close> (here \<open>None\<close>) for a string that is no number; \<open>slice\<close> reads \<open>NaN\<close> as 0.
\<close>

definition score_candidate :: "Recipe \<Rightarrow> Recipe \<Rightarrow> RecommendationScore" where
  "score_candidate processedTarget candidate =
     (let score0 = 0;
          reasons0 = [];
          (score1, reasons1) =
            (if cuisine processedTarget = cuisine candidate
             then (fadd score0 lit_0_4,
                   reasons0 @ [''Same cuisine ('' @ cuisine candidate @ '')''])
             else (score0, reasons0));
          (score2, reasons2) =
            (if category processedTarget = category candidate
             then (fadd score1 lit_0_3,
                   reasons1 @ [''Same category ('' @ category candidate @ '')''])
             else (score1, reasons1));
          targetTags = new_Set (map toLowerCase (tags processedTarget));
          candidateTags = new_Set (map toLowerCase (tags candidate));
          tagIntersection = new_Set (filter (\<lambda>tag. has candidateTags tag) targetTags);
          tagUnion = new_Set (targetTags @ candidateTags);
          (score3, reasons3) =
            (if size_Set tagUnion > 0
             then let tagSimilarity =
                        fdiv (of_nat (size_Set tagIntersection)) (of_nat (size_Set tagUnion));
                      score' = fadd score2 (fmul tagSimilarity lit_0_2)
                  in if size_Set tagIntersection > 0
                     then let commonTags = slice tagIntersection 0 3
                          in (score', reasons2 @ [''Similar tags: '' @ join commonTags '', ''])
                     else (score', reasons2)
             else (score2, reasons2));
          targetIngredients = new_Set (map toLowerCase (ingredients processedTarget));
          candidateIngredients = new_Set (map toLowerCase (ingredients candidate));
          ingredientIntersection =
            new_Set (filter (\<lambda>ing. has candidateIngredients ing) targetIngredients);
          ingredientUnion = new_Set (targetIngredients @ candidateIngredients);
          (score4, reasons4) =
            (if size_Set ingredientUnion > 0
             then let ingredientSimilarity =
                        fdiv (of_nat (size_Set ingredientIntersection))
                             (of_nat (size_Set ingredientUnion));
                      score' = fadd score3 (fmul ingredientSimilarity lit_0_1)
                  in if size_Set ingredientIntersection > 0
                     then let commonIngredients = slice ingredientIntersection 0 2
                          in (score',
                              reasons3 @
                              [''Similar ingredients: '' @ join commonIngredients '', ''])
                     else (score', reasons3)
             else (score3, reasons3))
      in \<lparr>recipe = candidate, score = score4,
          reasons = (if length reasons4 > 0 then reasons4 else [''Similar recipe''])\<rparr>)"

definition route_recommendations ::
  "Recipe \<Rightarrow> Recipe list \<Rightarrow> int option \<Rightarrow> RecommendationScore list" where
  "route_recommendations processedTarget candidateRecipes limit =
     slice
       (array_sort by_score_desc
          (filter (\<lambda>rec. score rec > lit_0_1)
             (map (score_candidate processedTarget) candidateRecipes)))
       0 (case limit of None \<Rightarrow> 0 | Some n \<Rightarrow> n)"

subsection \<open>The specification's reading\<close>

text \<open>
  The set of lower-cased entries of a tag or ingredient list, and the Jaccard ratio of
  two such sets as the specification words it: the size of the intersection over the
  size of the union, and 0 when the union is empty.  The arithmetic is that of the
  program's numbers, the four contributions added from left to right.
\<close>

definition lowered :: "string list \<Rightarrow> string set" where
  "lowered xs = toLowerCase ` set xs"

definition jaccard :: "string set \<Rightarrow> string set \<Rightarrow> number" where
  "jaccard A B =
     (if A \<union> B = {} then 0 else fdiv (of_nat (card (A \<inter> B))) (of_nat (card (A \<union> B))))"

definition score_spec :: "Recipe \<Rightarrow> Recipe \<Rightarrow> number" where
  "score_spec target candidate =
     fadd
       (fadd
          (fadd (if cuisine target = cuisine candidate then lit_0_4 else 0)
                (if category target = category candidate then lit_0_3 else 0))
          (fmul lit_0_2 (jaccard (lowered (tags target)) (lowered (tags candidate)))))
       (fmul lit_0_1
          (jaccard (lowered (ingredients target)) (lowered (ingredients candidate))))"

text \<open>
  The entries a reason string names.  The specification's reading keeps the target's
  spelling: the entries of the target's list whose lower-cased form occurs among the
  candidate's lower-cased entries.
\<close>

definition common_original :: "string list \<Rightarrow> string list \<Rightarrow> string list" where
  "common_original txs cxs = filter (\<lambda>x. toLowerCase x \<in> lowered cxs) txs"

text \<open>
  The lower-cased reading: the distinct lower-cased entries of the target's list, in the
  order of their first occurrence, that occur among the candidate's lower-cased entries
  (\<open>remdups\<close> keeps the last occurrence of an element, hence the two reversals).
\<close>

definition common_lowered :: "string list \<Rightarrow> string list \<Rightarrow> string list" where
  "common_lowered txs cxs =
     filter (\<lambda>x. x \<in> lowered cxs) (rev (remdups (rev (map toLowerCase txs))))"

text \<open>The four factors of a pair of recipes.\<close>

definition cuisine_match :: "Recipe \<Rightarrow> Recipe \<Rightarrow> bool" where
  "cuisine_match target candidate = (cuisine target = cuisine candidate)"

definition category_match :: "Recipe \<Rightarrow> Recipe \<Rightarrow> bool" where
  "category_match target candidate = (category target = category candidate)"

definition tags_match :: "Recipe \<Rightarrow> Recipe \<Rightarrow> bool" where
  "tags_match target candidate = (lowered (tags target) \<inter> lowered (tags candidate) \<noteq> {})"

definition ingredients_match :: "Recipe \<Rightarrow> Recipe \<Rightarrow> bool" where
  "ingredients_match target candidate =
     (lowered (ingredients target) \<inter> lowered (ingredients candidate) \<noteq> {})"

text \<open>
  A full match: equal cuisine and category, and the same non-empty set of lower-cased
  tags and of lower-cased ingredients.
\<close>

definition full_match :: "Recipe \<Rightarrow> Recipe \<Rightarrow> bool" where
  "full_match target candidate =
     (cuisine target = cuisine candidate \<and> category target = category candidate
      \<and> lowered (tags target) = lowered (tags candidate) \<and> tags target \<noteq> []
      \<and> lowered (ingredients target) = lowered (ingredients candidate)
      \<and> ingredients target \<noteq> [])"

text \<open>The reason each factor contributes, empty when the factor does not match.\<close>

definition cuisine_reason :: "Recipe \<Rightarrow> Recipe \<Rightarrow> string list" where
  "cuisine_reason target candidate =
     (if cuisine_match target candidate
      then [''Same cuisine ('' @ cuisine target @ '')''] else [])"

definition category_reason :: "Recipe \<Rightarrow> Recipe \<Rightarrow> string list" where
  "category_reason target candidate =
     (if category_match target candidate
      then [''Same category ('' @ category target @ '')''] else [])"

definition tags_reason :: "Recipe \<Rightarrow> Recipe \<Rightarrow> string list" where
  "tags_reason target candidate =
     (if tags_match target candidate
      then [''Similar tags: '' @
            join (take 3 (common_lowered (tags target) (tags candidate))) '', '']
      else [])"

definition ingredients_reason :: "Recipe \<Rightarrow> Recipe \<Rightarrow> string list" where
  "ingredients_reason target candidate =
     (if ingredients_match target candidate
      then [''Similar ingredients: '' @
            join (take 2 (common_lowered (ingredients target) (ingredients candidate))) '', '']
      else [])"

subsection \<open>Auxiliary notions for the proofs\<close>

text \<open>
  The score after the cuisine and category tests, and the effect of one of the two
  overlap steps on the score so far.
\<close>

definition base_score :: "Recipe \<Rightarrow> Recipe \<Rightarrow> number" where
  "base_score target candidate =
     (if cuisine target = cuisine candidate
      then (if category target = category candidate then fadd lit_0_4 lit_0_3 else lit_0_4)
      else (if category target = category candidate then lit_0_3 else 0))"

definition add_overlap :: "number \<Rightarrow> string set \<Rightarrow> string set \<Rightarrow> number \<Rightarrow> number" where
  "add_overlap s A B w =
     (if A \<union> B = {} then s
      else fadd s (fmul (fdiv (of_nat (card (A \<inter> B))) (of_nat (card (A \<union> B)))) w))"

text \<open>The entry pushed for a candidate that passes the threshold.\<close>

definition entry_of :: "Recipe \<Rightarrow> Recipe \<Rightarrow> RecommendationScore" where
  "entry_of targetRecipe candidateRecipe =
     \<lparr>recipe = candidateRecipe,
      score = calculateSimilarity targetRecipe candidateRecipe,
      reasons = generateReasons targetRecipe candidateRecipe\<rparr>"

subsection \<open>Example recipes\<close>

definition tiramisu :: Recipe where
  "tiramisu =
     \<lparr>id_recipe = ''1'', name = ''Tiramisu'', ingredients = [''Flour'', ''Sugar''],
      instructions = [], cuisine = ''Italian'', category = ''Dessert'', image_url = [],
      youtube = None, source = None, tags = [''Sweet'', ''Baked'']\<rparr>"

definition cake :: Recipe where
  "cake =
     \<lparr>id_recipe = ''2'', name = ''Cake'', ingredients = [''flour'', ''butter''],
      instructions = [], cuisine = ''Italian'', category = ''Dessert'', image_url = [],
      youtube = None, source = None, tags = [''sweet'', ''quick'']\<rparr>"

definition flan :: Recipe where
  "flan =
     \<lparr>id_recipe = ''3'', name = ''Flan'', ingredients = [], instructions = [],
      cuisine = ''French'', category = ''Dessert'', image_url = [],
      youtube = None, source = None, tags = []\<rparr>"

definition noodles :: Recipe where
  "noodles =
     \<lparr>id_recipe = ''4'', name = ''Noodles'', ingredients = [''FLOUR'', ''sugar''],
      instructions = [], cuisine = ''Thai'', category = ''Main'', image_url = [],
      youtube = None, source = None, tags = []\<rparr>"

definition yoghurt :: Recipe where
  "yoghurt =
     \<lparr>id_recipe = ''5'', name = ''Yoghurt'', ingredients = [], instructions = [],
      cuisine = ''Greek'', category = ''Dessert'', image_url = [],
      youtube = None, source = None, tags = []\<rparr>"

definition tiramisu_classico :: Recipe where
  "tiramisu_classico =
     \<lparr>id_recipe = ''6'', name = ''Tiramisu classico'', ingredients = [''Flour'', ''Sugar''],
      instructions = [], cuisine = ''Italian'', category = ''Dessert'', image_url = [],
      youtube = None, source = None, tags = [''Sweet'', ''Baked'']\<rparr>"

definition curry :: Recipe where
  "curry =
     \<lparr>id_recipe = ''7'', name = ''Curry'', ingredients = [''Rice''], instructions = [],
      cuisine = ''Thai'', category = ''Main'', image_url = [],
      youtube = None, source = None, tags = [''Spicy'']\<rparr>"

definition catalogue :: "Recipe list" where
  "catalogue = [flan, tiramisu, noodles, yoghurt, cake]"

section \<open>Properties of the number model\<close>

subsection \<open>Exponents and rounding\<close>

lemma pow2_less_imp: "(2::rat) powi a < 2 powi b \<Longrightarrow> a < b"
  by (rule ccontr) (use power_int_increasing [of b a "2::rat"] in auto)

lemma pow2_le_mono: "a \<le> b \<Longrightarrow> (2::rat) powi a \<le> 2 powi b"
  by (rule power_int_increasing) auto

lemma pow2_pos: "0 < (2::rat) powi a"
  by simp

lemma pow2_add: "(2::rat) powi (a + b) = 2 powi a * 2 powi b"
  by (rule power_int_add) simp

lemma nat_pow_le_rat: "2 ^ k \<le> (n::nat) \<Longrightarrow> (2::rat) ^ k \<le> of_nat n"
proof -
  assume "2 ^ k \<le> n"
  then have "(of_nat (2 ^ k) :: rat) \<le> of_nat n" by (simp only: of_nat_le_iff)
  then show ?thesis by simp
qed

lemma nat_less_pow_rat: "(n::nat) < 2 ^ k \<Longrightarrow> of_nat n + 1 \<le> (2::rat) ^ k"
proof -
  assume "n < 2 ^ k"
  then have "Suc n \<le> 2 ^ k" by simp
  then have "(of_nat (Suc n) :: rat) \<le> of_nat (2 ^ k)" by (simp only: of_nat_le_iff)
  then show ?thesis by simp
qed

lemma ilog2_bounds:
  assumes "0 < x"
  shows "2 powi (ilog2 x) \<le> x" and "x < 2 powi (ilog2 x + 1)"
proof -
  have "2 powi (ilog2 x) \<le> x \<and> x < 2 powi (ilog2 x + 1)"
  proof (cases "1 \<le> x")
    case True
    define n where "n = nat \<lfloor>x\<rfloor>"
    define L where "L = floorlog 2 n"
    have n1: "1 \<le> \<lfloor>x\<rfloor>" using True by simp
    then have npos: "0 < n" by (simp add: n_def)
    have b: "2 ^ (L - 1) \<le> n" "n < 2 ^ L"
      using floorlog_bounds [of n 2] npos by (simp_all add: L_def)
    have Lpos: "0 < L" using b npos by (cases L) auto
    have e: "ilog2 x = int (L - 1)" using True Lpos by (simp add: ilog2_def n_def L_def)
    have e1: "ilog2 x + 1 = int L" using Lpos by (simp add: e)
    have fl: "of_int \<lfloor>x\<rfloor> = (of_nat n :: rat)" using n1 by (simp add: n_def)
    have "of_int \<lfloor>x\<rfloor> \<le> x" "x < of_int \<lfloor>x\<rfloor> + 1" by linarith+
    then have nx: "of_nat n \<le> x" "x < of_nat n + 1" unfolding fl by this+
    have "(2::rat) ^ (L - 1) \<le> x" using nat_pow_le_rat [OF b(1)] nx(1) by linarith
    moreover have "x < (2::rat) ^ L" using nat_less_pow_rat [OF b(2)] nx(2) by linarith
    ultimately show ?thesis unfolding e1 unfolding e by simp
  next
    case False
    define y where "y = 1 / x"
    define m where "m = nat (\<lceil>y\<rceil> - 1)"
    define L where "L = floorlog 2 m"
    have y1: "1 < y" using False assms by (simp add: y_def)
    then have c2: "2 \<le> \<lceil>y\<rceil>" by (simp add: le_ceiling_iff) 
    then have mpos: "0 < m" by (simp add: m_def)
    have b: "2 ^ (L - 1) \<le> m" "m < 2 ^ L"
      using floorlog_bounds [of m 2] mpos by (simp_all add: L_def)
    have Lpos: "0 < L" using b mpos by (cases L) auto
    have e: "ilog2 x = - int L" using False by (simp add: ilog2_def m_def L_def y_def)
    have e1: "ilog2 x + 1 = - int (L - 1)" using Lpos by (simp add: e)
    have xy: "x = 1 / y" using assms by (simp add: y_def)
    have cl: "of_int \<lceil>y\<rceil> = (of_nat m :: rat) + 1"
    proof -
      have "\<lceil>y\<rceil> = int m + 1" using c2 by (simp add: m_def)
      then show ?thesis by simp
    qed
    have "y \<le> of_int \<lceil>y\<rceil>" "of_int \<lceil>y\<rceil> < y + 1" by linarith+
    then have my: "y \<le> of_nat m + 1" "of_nat m < y" unfolding cl by simp_all
    have "y \<le> 2 ^ L" using nat_less_pow_rat [OF b(2)] my(1) by linarith
    then have "1 / 2 ^ L \<le> 1 / y" using y1 by (simp add: frac_le)
    then have lo: "2 powi (ilog2 x) \<le> x"
      unfolding e by (simp add: xy power_int_minus_divide)
    have "(2::rat) ^ (L - 1) < y" using nat_pow_le_rat [OF b(1)] my(2) by linarith
    then have "1 / y < 1 / 2 ^ (L - 1)" by (simp add: frac_less2)
    then have "x < 2 powi (ilog2 x + 1)"
      unfolding e1 by (simp add: xy power_int_minus_divide)
    with lo show ?thesis by simp
  qed
  then show "2 powi (ilog2 x) \<le> x" and "x < 2 powi (ilog2 x + 1)" by simp_all
qed

lemma ilog2_unique:
  assumes "0 < x" "2 powi e \<le> x" "x < 2 powi (e + 1)"
  shows "ilog2 x = e"
proof -
  have "(2::rat) powi e < 2 powi (ilog2 x + 1)"
    using assms(2) ilog2_bounds(2) [OF assms(1)] by simp
  then have "e < ilog2 x + 1" by (rule pow2_less_imp)
  moreover have "(2::rat) powi (ilog2 x) < 2 powi (e + 1)"
    using assms(3) ilog2_bounds(1) [OF assms(1)] by simp
  then have "ilog2 x < e + 1" by (rule pow2_less_imp)
  ultimately show ?thesis by simp
qed

lemma ilog2_mono:
  assumes "0 < x" "x \<le> y"
  shows "ilog2 x \<le> ilog2 y"
proof -
  have "0 < y" using assms by simp
  then have "(2::rat) powi (ilog2 x) < 2 powi (ilog2 y + 1)"
    using ilog2_bounds(1) [OF assms(1)] ilog2_bounds(2) [of y] assms(2) by simp
  then have "ilog2 x < ilog2 y + 1" by (rule pow2_less_imp)
  then show ?thesis by simp
qed

lemma round_half_even_bounds: "\<lfloor>r\<rfloor> \<le> round_half_even r" "round_half_even r \<le> \<lfloor>r\<rfloor> + 1"
  by (simp_all add: round_half_even_def Let_def)

lemma round_half_even_of_int [simp]: "round_half_even (of_int n) = n"
  by (simp add: round_half_even_def)

lemma round_half_even_mono:
  assumes "r \<le> s"
  shows "round_half_even r \<le> round_half_even s"
proof (cases "\<lfloor>r\<rfloor> = \<lfloor>s\<rfloor>")
  case True
  then show ?thesis using assms by (auto simp: round_half_even_def Let_def)
next
  case False
  then have "\<lfloor>r\<rfloor> + 1 \<le> \<lfloor>s\<rfloor>" using floor_mono [OF assms] by simp
  then show ?thesis
    using round_half_even_bounds(2) [of r] round_half_even_bounds(1) [of s] by simp
qed

lemma round_half_even_ge: "of_int n \<le> r \<Longrightarrow> n \<le> round_half_even r"
  using round_half_even_mono [of "of_int n" r] by simp

lemma round_half_even_le: "r \<le> of_int n \<Longrightarrow> round_half_even r \<le> n"
  using round_half_even_mono [of r "of_int n"] by simp


lemma pow2_split: "a + b = c \<Longrightarrow> (2::rat) powi a * 2 powi b = 2 powi c"
  using pow2_add [of a b] by simp

lemma pow2_mult_le: "(a::rat) \<le> b \<Longrightarrow> a * 2 powi k \<le> b * 2 powi k"
  by (simp add: mult_right_mono)

lemma pow2_mult_less: "(a::rat) < b \<Longrightarrow> a * 2 powi k < b * 2 powi k"
  by (simp add: mult_strict_right_mono)

lemma cast_52: "rat_of_int (2 ^ 52) = 2 powi 52"
  by simp

lemma cast_53: "rat_of_int (2 ^ 53) = 2 powi 53"
  by simp

lemma scaled_bounds:
  fixes x :: rat
  assumes "2 powi e \<le> x" "x < 2 powi (e + 1)"
  shows "2 powi 52 \<le> x * 2 powi (52 - e)" "x * 2 powi (52 - e) < 2 powi 53"
proof -
  have "(2::rat) powi e * 2 powi (52 - e) = 2 powi 52"
    by (rule pow2_split) simp
  then show "2 powi 52 \<le> x * 2 powi (52 - e)"
    using pow2_mult_le [OF assms(1), of "52 - e"] by (simp only:)
  have "(2::rat) powi (e + 1) * 2 powi (52 - e) = 2 powi 53"
    by (rule pow2_split) simp
  then show "x * 2 powi (52 - e) < 2 powi 53"
    using pow2_mult_less [OF assms(2), of "52 - e"] by (simp only:)
qed

lemma round_pos_eq:
  assumes "0 < x" "2 powi e \<le> x" "x < 2 powi (e + 1)"
  shows "round_pos x = of_int (round_half_even (x * 2 powi (52 - e))) * 2 powi (e - 52)"
  using ilog2_unique [OF assms] by (simp add: round_pos_def Let_def)

lemma significand_bounds:
  fixes x :: rat
  assumes "2 powi e \<le> x" "x < 2 powi (e + 1)"
  shows "2 ^ 52 \<le> round_half_even (x * 2 powi (52 - e))"
    and "round_half_even (x * 2 powi (52 - e)) \<le> 2 ^ 53"
proof -
  note b = scaled_bounds [OF assms]
  have "rat_of_int (2 ^ 52) \<le> x * 2 powi (52 - e)" using b(1) by (simp only: cast_52)
  then show "2 ^ 52 \<le> round_half_even (x * 2 powi (52 - e))"
    by (rule round_half_even_ge)
  have "x * 2 powi (52 - e) \<le> rat_of_int (2 ^ 53)"
    using b(2) by (simp only: cast_53 less_imp_le)
  then show "round_half_even (x * 2 powi (52 - e)) \<le> 2 ^ 53"
    by (rule round_half_even_le)
qed

lemma significand_value_bounds:
  assumes "2 ^ 52 \<le> n" "n \<le> 2 ^ 53"
  shows "2 powi (k + 52) \<le> rat_of_int n * 2 powi k" "rat_of_int n * 2 powi k \<le> 2 powi (k + 53)"
proof -
  have "rat_of_int (2 ^ 52) \<le> of_int n" using assms(1) by (simp only: of_int_le_iff)
  then have "2 powi 52 * 2 powi k \<le> rat_of_int n * 2 powi k"
    unfolding cast_52 by (rule pow2_mult_le)
  moreover have "(2::rat) powi 52 * 2 powi k = 2 powi (k + 52)" by (rule pow2_split) simp
  ultimately show "2 powi (k + 52) \<le> rat_of_int n * 2 powi k" by (simp only:)
  have "rat_of_int n \<le> of_int (2 ^ 53)" using assms(2) by (simp only: of_int_le_iff)
  then have "rat_of_int n * 2 powi k \<le> 2 powi 53 * 2 powi k"
    unfolding cast_53 by (rule pow2_mult_le)
  moreover have "(2::rat) powi 53 * 2 powi k = 2 powi (k + 53)" by (rule pow2_split) simp
  ultimately show "rat_of_int n * 2 powi k \<le> 2 powi (k + 53)" by (simp only:)
qed

lemma round_pos_bounds:
  assumes "0 < x"
  shows "2 powi (ilog2 x) \<le> round_pos x" and "round_pos x \<le> 2 powi (ilog2 x + 1)"
proof -
  define e where "e = ilog2 x"
  note xb = ilog2_bounds [OF assms, folded e_def]
  define n where "n = round_half_even (x * 2 powi (52 - e))"
  have r: "round_pos x = of_int n * 2 powi (e - 52)"
    unfolding n_def by (rule round_pos_eq [OF assms xb])
  note nb = significand_bounds [OF xb, folded n_def]
  note vb = significand_value_bounds [OF nb, of "e - 52"]
  have "e - 52 + 52 = e" "e - 52 + 53 = e + 1" by simp_all
  then show "2 powi (ilog2 x) \<le> round_pos x" and "round_pos x \<le> 2 powi (ilog2 x + 1)"
    using vb unfolding r e_def [symmetric] by (simp_all only:)
qed

lemma round_pos_pos: "0 < x \<Longrightarrow> 0 < round_pos x"
  using round_pos_bounds(1) [of x] pow2_pos [of "ilog2 x"] by linarith

lemma round_pos_mono:
  assumes "0 < x" "x \<le> y"
  shows "round_pos x \<le> round_pos y"
proof -
  have ypos: "0 < y" using assms by simp
  define e where "e = ilog2 y"
  note yb = ilog2_bounds [OF ypos, folded e_def]
  show ?thesis
  proof (cases "ilog2 x = e")
    case True
    note xb = ilog2_bounds [OF assms(1), unfolded True]
    have "x * 2 powi (52 - e) \<le> y * 2 powi (52 - e)"
      using assms(2) by (rule pow2_mult_le)
    then have "round_half_even (x * 2 powi (52 - e)) \<le> round_half_even (y * 2 powi (52 - e))"
      by (rule round_half_even_mono)
    then have "rat_of_int (round_half_even (x * 2 powi (52 - e)))
        \<le> of_int (round_half_even (y * 2 powi (52 - e)))"
      by (simp only: of_int_le_iff)
    then have "rat_of_int (round_half_even (x * 2 powi (52 - e))) * 2 powi (e - 52)
        \<le> of_int (round_half_even (y * 2 powi (52 - e))) * 2 powi (e - 52)"
      by (rule pow2_mult_le)
    then show ?thesis
      by (simp only: round_pos_eq [OF assms(1) xb] round_pos_eq [OF ypos yb])
  next
    case False
    then have "ilog2 x + 1 \<le> e" using ilog2_mono [OF assms] by (simp add: e_def)
    then have "(2::rat) powi (ilog2 x + 1) \<le> 2 powi e" by (rule pow2_le_mono)
    then show ?thesis
      using round_pos_bounds(2) [OF assms(1)] round_pos_bounds(1) [OF ypos, folded e_def]
      by linarith
  qed
qed

lemma round_pos_pow2: "round_pos (2 powi j) = 2 powi j"
proof -
  have "round_pos (2 powi j) =
      of_int (round_half_even (2 powi j * 2 powi (52 - j))) * 2 powi (j - 52)"
    by (rule round_pos_eq) (simp_all add: power_int_strict_increasing)
  also have "(2::rat) powi j * 2 powi (52 - j) = of_int (2 ^ 52)"
    unfolding cast_52 by (rule pow2_split) simp
  also have "round_half_even (of_int (2 ^ 52)) = 2 ^ 52" by (rule round_half_even_of_int)
  also have "rat_of_int (2 ^ 52) * 2 powi (j - 52) = 2 powi j"
    unfolding cast_52 by (rule pow2_split) simp
  finally show ?thesis .
qed

lemma round_pos_representable:
  assumes "2 ^ 52 \<le> n" "n \<le> 2 ^ 53"
  shows "round_pos (of_int n * 2 powi k) = of_int n * 2 powi k"
proof (cases "n = 2 ^ 53")
  case True
  have "rat_of_int n * 2 powi k = 2 powi (53 + k)"
    unfolding True cast_53 by (rule pow2_split) simp
  then show ?thesis by (simp only: round_pos_pow2)
next
  case False
  define x where "x = rat_of_int n * 2 powi k"
  have "(0::int) < 2 ^ 52" by simp
  then have npos: "0 < n" using assms(1) by linarith
  have xpos: "0 < x" using npos by (simp add: x_def)
  have lo: "2 powi (k + 52) \<le> x"
    unfolding x_def by (rule significand_value_bounds(1) [OF assms])
  have "n < 2 ^ 53" using False assms(2) by simp
  then have "rat_of_int n < of_int (2 ^ 53)" by (simp only: of_int_less_iff)
  then have "x < 2 powi 53 * 2 powi k"
    unfolding x_def cast_53 by (rule pow2_mult_less)
  moreover have "(2::rat) powi 53 * 2 powi k = 2 powi (k + 52 + 1)" by (rule pow2_split) simp
  ultimately have hi: "x < 2 powi (k + 52 + 1)" by (simp only:)
  have "2 powi k * 2 powi (52 - (k + 52)) = (1::rat)"
    using pow2_split [of k "52 - (k + 52)" 0] by simp
  then have sc: "x * 2 powi (52 - (k + 52)) = of_int n"
    by (simp add: x_def mult.assoc)
  have "round_pos x =
      of_int (round_half_even (x * 2 powi (52 - (k + 52)))) * 2 powi (k + 52 - 52)"
    by (rule round_pos_eq [OF xpos lo hi])
  also have "\<dots> = of_int n * 2 powi k"
    unfolding sc by simp
  finally show ?thesis unfolding x_def .
qed

lemma round_pos_idem:
  assumes "0 < x"
  shows "round_pos (round_pos x) = round_pos x"
proof -
  define e where "e = ilog2 x"
  note xb = ilog2_bounds [OF assms, folded e_def]
  show ?thesis
    unfolding round_pos_eq [OF assms xb]
    by (rule round_pos_representable) (rule significand_bounds [OF xb])+
qed

subsection \<open>Rounding to a number\<close>

lemma to_double_0 [simp]: "to_double 0 = 0"
  by (simp add: to_double_def)

lemma to_double_pos_iff [simp]: "0 < to_double x \<longleftrightarrow> 0 < x"
  using round_pos_pos [of x] round_pos_pos [of "- x"]
  by (cases "x = 0"; cases "x < 0") (auto simp: to_double_def)

lemma to_double_neg_iff [simp]: "to_double x < 0 \<longleftrightarrow> x < 0"
  using round_pos_pos [of x] round_pos_pos [of "- x"]
  by (cases "x = 0"; cases "x < 0") (auto simp: to_double_def)

lemma to_double_le_0_iff [simp]: "to_double x \<le> 0 \<longleftrightarrow> x \<le> 0"
  using to_double_pos_iff [of x] by (simp only: not_less [symmetric])

lemma to_double_ge_0_iff [simp]: "0 \<le> to_double x \<longleftrightarrow> 0 \<le> x"
  using to_double_neg_iff [of x] by (simp only: not_less [symmetric])

lemma to_double_eq_0_iff [simp]: "to_double x = 0 \<longleftrightarrow> x = 0"
proof
  assume a: "to_double x = 0"
  show "x = 0"
  proof (rule ccontr)
    assume "x \<noteq> 0"
    then consider "0 < x" | "x < 0" by linarith
    then show False
    proof cases
      case 1
      then have "0 < to_double x" by (simp only: to_double_pos_iff)
      then show False unfolding a by simp
    next
      case 2
      then have "to_double x < 0" by (simp only: to_double_neg_iff)
      then show False unfolding a by simp
    qed
  qed
qed simp

lemma to_double_mono:
  assumes "x \<le> y"
  shows "to_double x \<le> to_double y"
proof -
  consider "0 < x" | "x \<le> 0" "0 \<le> y" | "y < 0" by linarith
  then show ?thesis
  proof cases
    case 1
    then show ?thesis using assms round_pos_mono [of x y] by (simp add: to_double_def)
  next
    case 2
    then show ?thesis
      using to_double_le_0_iff [of x] to_double_ge_0_iff [of y] by linarith
  next
    case 3
    then have "0 < - y" "- y \<le> - x" "x < 0" using assms by simp_all
    then show ?thesis using 3 round_pos_mono [of "- y" "- x"] by (simp add: to_double_def)
  qed
qed

lemma to_double_idem [simp]: "to_double (to_double x) = to_double x"
proof -
  consider "0 < x" | "x = 0" | "x < 0" by linarith
  then show ?thesis
  proof cases
    case 1
    then show ?thesis
      using round_pos_pos [of x] round_pos_idem [of x] by (simp add: to_double_def)
  next
    case 2
    then show ?thesis by simp
  next
    case 3
    then show ?thesis
      using round_pos_pos [of "- x"] round_pos_idem [of "- x"] by (simp add: to_double_def)
  qed
qed

lemma to_double_1 [simp]: "to_double 1 = 1"
  using round_pos_pow2 [of 0] by (simp add: to_double_def)

lemma to_double_le_1: "x \<le> 1 \<Longrightarrow> to_double x \<le> 1"
  using to_double_mono [of x 1] by simp

lemma lit_0_4_eq: "lit_0_4 = 7205759403792794 / 2 ^ 54"
  unfolding lit_0_4_def by code_simp
lemma lit_0_3_eq: "lit_0_3 = 5404319552844595 / 2 ^ 54"
  unfolding lit_0_3_def by code_simp
lemma lit_0_2_eq: "lit_0_2 = 7205759403792794 / 2 ^ 55"
  unfolding lit_0_2_def by code_simp
lemma lit_0_1_eq: "lit_0_1 = 7205759403792794 / 2 ^ 56"
  unfolding lit_0_1_def by code_simp

lemma fadd_0_left [simp]: "fadd 0 (to_double x) = to_double x"
  by (simp add: fadd_def)
lemma fadd_0_right [simp]: "fadd (to_double x) 0 = to_double x"
  by (simp add: fadd_def)
lemma fadd_0_0 [simp]: "fadd 0 0 = 0"
  by (simp add: fadd_def)
lemma fmul_0_left [simp]: "fmul 0 x = 0"
  by (simp add: fmul_def)
lemma fmul_0_right [simp]: "fmul x 0 = 0"
  by (simp add: fmul_def)
lemma fdiv_0_left [simp]: "fdiv 0 x = 0"
  by (simp add: fdiv_def)
lemma fmul_commute: "fmul x y = fmul y x"
  by (simp add: fmul_def mult.commute)
lemma fsub_le_0_iff [simp]: "fsub x y \<le> 0 \<longleftrightarrow> x \<le> y"
  by (simp add: fsub_def)
lemma fadd_mono: "a \<le> b \<Longrightarrow> c \<le> d \<Longrightarrow> fadd a c \<le> fadd b d"
  unfolding fadd_def by (rule to_double_mono) simp
lemma fmul_mono: "0 \<le> a \<Longrightarrow> a \<le> b \<Longrightarrow> 0 \<le> c \<Longrightarrow> c \<le> d \<Longrightarrow> fmul a c \<le> fmul b d"
  unfolding fmul_def by (rule to_double_mono) (simp add: mult_mono)
lemma fadd_nonneg: "0 \<le> a \<Longrightarrow> 0 \<le> b \<Longrightarrow> 0 \<le> fadd a b"
  by (simp add: fadd_def)
lemma fmul_nonneg: "0 \<le> a \<Longrightarrow> 0 \<le> b \<Longrightarrow> 0 \<le> fmul a b"
  by (simp add: fmul_def)
lemma fdiv_nat_bounds: "i \<le> u \<Longrightarrow> 0 \<le> fdiv (of_nat i) (of_nat u) \<and> fdiv (of_nat i) (of_nat u) \<le> 1"
proof -
  assume "i \<le> u"
  then have "(of_nat i :: rat) / of_nat u \<le> 1" 
    by (cases "u = 0") (simp_all add: divide_le_eq_1)
  then show ?thesis unfolding fdiv_def by (simp add: to_double_le_1)
qed

section \<open>Properties of the library model\<close>

subsection \<open>Sets and arrays\<close>

lemma set_foldl_set_add: "set (foldl set_add acc xs) = set acc \<union> set xs"
  by (induction xs arbitrary: acc) (auto simp: set_add_def)

lemma distinct_foldl_set_add: "distinct acc \<Longrightarrow> distinct (foldl set_add acc xs)"
  by (induction xs arbitrary: acc) (auto simp: set_add_def)

lemma set_new_Set [simp]: "set (new_Set xs) = set xs"
  by (simp add: new_Set_def set_foldl_set_add)

lemma distinct_new_Set [simp]: "distinct (new_Set xs)"
  by (simp add: new_Set_def distinct_foldl_set_add)

lemma foldl_set_add_distinct: "distinct (acc @ xs) \<Longrightarrow> foldl set_add acc xs = acc @ xs"
  by (induction xs arbitrary: acc) (auto simp: set_add_def)

lemma new_Set_distinct: "distinct xs \<Longrightarrow> new_Set xs = xs"
  using foldl_set_add_distinct [of "[]" xs] by (simp add: new_Set_def)

lemma remdups_snoc: "remdups (ys @ [x]) = remdups (filter (\<lambda>y. y \<noteq> x) ys) @ [x]"
  by (induction ys) auto

lemma foldl_set_add_first_occurrences:
  "foldl set_add acc xs = acc @ rev (remdups (rev (filter (\<lambda>x. x \<notin> set acc) xs)))"
proof (induction xs arbitrary: acc)
  case Nil
  then show ?case by simp
next
  case (Cons x xs)
  show ?case
  proof (cases "x \<in> set acc")
    case True
    then show ?thesis using Cons.IH [of acc] by (simp add: set_add_def)
  next
    case False
    have "filter (\<lambda>y. y \<noteq> x) (rev (filter (\<lambda>y. y \<notin> set acc) xs))
        = rev (filter (\<lambda>y. y \<notin> set (acc @ [x])) xs)"
      by (simp add: rev_filter [symmetric] conj_commute)
    then have "remdups (rev (filter (\<lambda>y. y \<notin> set acc) xs) @ [x])
        = remdups (rev (filter (\<lambda>y. y \<notin> set (acc @ [x])) xs)) @ [x]"
      by (simp only: remdups_snoc)
    then show ?thesis using False Cons.IH [of "acc @ [x]"] by (simp add: set_add_def)
  qed
qed

lemma new_Set_first_occurrences: "new_Set xs = rev (remdups (rev xs))"
  using foldl_set_add_first_occurrences [of "[]" xs] by (simp add: new_Set_def)

lemma size_new_Set: "size_Set (new_Set xs) = card (set xs)"
  using distinct_card [OF distinct_new_Set, of xs] by (simp add: size_Set_def)

lemma common_eq: "filter (\<lambda>x. has (new_Set ys) x) (new_Set xs) = filter (\<lambda>x. x \<in> set ys) (rev (remdups (rev xs)))"
  by (simp add: has_def new_Set_first_occurrences)

lemma size_intersection:
  "size_Set (new_Set (filter (\<lambda>x. has (new_Set ys) x) (new_Set xs))) = card (set xs \<inter> set ys)"
proof -
  have "set (filter (\<lambda>x. has (new_Set ys) x) (new_Set xs)) = set xs \<inter> set ys"
    by (auto simp: has_def)
  then show ?thesis by (simp only: size_new_Set)
qed

lemma size_union:
  "size_Set (new_Set (new_Set xs @ new_Set ys)) = card (set xs \<union> set ys)"
  by (simp add: size_new_Set)

lemma slice_0_nonneg: "0 \<le> n \<Longrightarrow> slice xs 0 n = take (nat n) xs"
  by (simp add: slice_def Let_def min_def)

lemma slice_0_neg: "n < 0 \<Longrightarrow> slice xs 0 n = take (length xs - nat (- n)) xs"
proof -
  assume "n < 0"
  then have "nat (max (int (length xs) + n) 0) = length xs - nat (- n)" by linarith
  then show ?thesis using \<open>n < 0\<close> by (simp add: slice_def Let_def)
qed

lemma slice_0_take: "\<exists>m. slice xs 0 n = take m xs"
  by (cases "0 \<le> n") (auto simp: slice_0_nonneg slice_0_neg)

lemma slice_0_prefix: "prefix (slice xs 0 n) xs"
  using slice_0_take [of xs n] by (auto simp: take_is_prefix)

lemma set_slice_0: "set (slice xs 0 n) \<subseteq> set xs"
  using slice_0_take [of xs n] by (auto dest: in_set_takeD)

subsection \<open>Sorting\<close>

lemma set_sort_insert [simp]: "set (sort_insert cmp x ys) = insert x (set ys)"
  by (induction ys) auto

lemma set_array_sort [simp]: "set (array_sort cmp xs) = set xs"
  by (induction xs) auto

lemma length_sort_insert [simp]: "length (sort_insert cmp x ys) = Suc (length ys)"
  by (induction ys) auto

lemma length_array_sort [simp]: "length (array_sort cmp xs) = length xs"
  by (induction xs) auto

lemma sorted_sort_insert:
  assumes "\<And>a b. cmp a b \<le> 0 \<longleftrightarrow> key b \<le> (key a :: rat)"
  shows "sorted_wrt (\<lambda>a b. key b \<le> key a) ys
    \<Longrightarrow> sorted_wrt (\<lambda>a b. key b \<le> key a) (sort_insert cmp x ys)"
proof (induction ys)
  case Nil
  then show ?case by simp
next
  case (Cons y ys)
  show ?case
  proof (cases "cmp x y \<le> 0")
    case True
    then have "key y \<le> key x" by (simp only: assms)
    then show ?thesis using True Cons.prems by fastforce
  next
    case False
    then have "key x \<le> key y" using assms [of x y] by simp
    then show ?thesis using False Cons by auto
  qed
qed

lemma sorted_array_sort:
  assumes "\<And>a b. cmp a b \<le> 0 \<longleftrightarrow> key b \<le> (key a :: rat)"
  shows "sorted_wrt (\<lambda>a b. key b \<le> key a) (array_sort cmp xs)"
  by (induction xs) (simp_all add: sorted_sort_insert [OF assms])

lemma filter_sort_insert:
  assumes "\<And>a b. cmp a b \<le> 0 \<longleftrightarrow> key b \<le> (key a :: rat)"
  shows "filter (\<lambda>e. key e = k) (sort_insert cmp x ys) = filter (\<lambda>e. key e = k) (x # ys)"
proof (induction ys)
  case Nil
  then show ?case by simp
next
  case (Cons y ys)
  show ?case
  proof (cases "cmp x y \<le> 0")
    case True
    then show ?thesis by simp
  next
    case False
    then have "key x < key y" using assms [of x y] by simp
    then show ?thesis using False Cons.IH by auto
  qed
qed

lemma array_sort_stable:
  assumes "\<And>a b. cmp a b \<le> 0 \<longleftrightarrow> key b \<le> (key a :: rat)"
  shows "filter (\<lambda>e. key e = k) (array_sort cmp xs) = filter (\<lambda>e. key e = k) xs"
proof (induction xs)
  case Nil
  then show ?case by simp
next
  case (Cons x xs)
  have "filter (\<lambda>e. key e = k) (array_sort cmp (x # xs))
      = filter (\<lambda>e. key e = k) (x # array_sort cmp xs)"
    by (simp add: filter_sort_insert [OF assms])
  then show ?case using Cons.IH by simp
qed

lemma by_score_desc_le_0: "by_score_desc a b \<le> 0 \<longleftrightarrow> score b \<le> score a"
  by (simp add: by_score_desc_def)

section \<open>Properties of the engine\<close>

subsection \<open>The scorer\<close>

lemma overlap_step:
  "(let targetSet = new_Set (map toLowerCase txs);
        candidateSet = new_Set (map toLowerCase cxs);
        intersection = new_Set (filter (\<lambda>x. has candidateSet x) targetSet);
        union = new_Set (targetSet @ candidateSet)
    in if size_Set union > 0
       then let similarity = fdiv (of_nat (size_Set intersection)) (of_nat (size_Set union))
            in fadd s (fmul similarity w)
       else s)
   = add_overlap s (lowered txs) (lowered cxs) w"
proof -
  have i: "size_Set (new_Set (filter (\<lambda>x. has (new_Set (map toLowerCase cxs)) x)
        (new_Set (map toLowerCase txs)))) = card (lowered txs \<inter> lowered cxs)"
    by (simp only: size_intersection lowered_def set_map)
  have u: "size_Set (new_Set (new_Set (map toLowerCase txs) @ new_Set (map toLowerCase cxs)))
      = card (lowered txs \<union> lowered cxs)"
    by (simp only: size_union lowered_def set_map)
  have "finite (lowered txs \<union> lowered cxs)" by (simp add: lowered_def)
  then have z: "0 < card (lowered txs \<union> lowered cxs) \<longleftrightarrow> lowered txs \<union> lowered cxs \<noteq> {}"
    by (simp only: card_gt_0_iff) simp
  show ?thesis
    unfolding Let_def i u z add_overlap_def by simp
qed

lemma base_step:
  "(let score0 = 0;
        score1 = (if cuisine t = cuisine c then fadd score0 lit_0_4 else score0)
    in if category t = category c then fadd score1 lit_0_3 else score1)
   = base_score t c"
  by (simp add: base_score_def lit_0_4_def lit_0_3_def)

lemma calculateSimilarity_eq:
  "calculateSimilarity t c =
     add_overlap
       (add_overlap (base_score t c) (lowered (tags t)) (lowered (tags c)) lit_0_2)
       (lowered (ingredients t)) (lowered (ingredients c)) lit_0_1"
proof -
  note o = overlap_step [unfolded Let_def]
  show ?thesis
    unfolding calculateSimilarity_def Let_def o base_step [unfolded Let_def] ..
qed

lemma lit_double [simp]:
  "to_double lit_0_4 = lit_0_4" "to_double lit_0_3 = lit_0_3"
  "to_double lit_0_2 = lit_0_2" "to_double lit_0_1 = lit_0_1"
  by (simp_all add: lit_0_4_def lit_0_3_def lit_0_2_def lit_0_1_def)

lemma lit_pos [simp]: "0 < lit_0_4" "0 < lit_0_3" "0 < lit_0_2" "0 < lit_0_1"
  by (simp_all add: lit_0_4_def lit_0_3_def lit_0_2_def lit_0_1_def)

lemma fadd_double [simp]: "to_double (fadd x y) = fadd x y"
  by (simp add: fadd_def)

lemma base_score_double [simp]: "to_double (base_score t c) = base_score t c"
  by (simp add: base_score_def)

lemma add_overlap_double:
  "to_double s = s \<Longrightarrow> to_double (add_overlap s A B w) = add_overlap s A B w"
  by (simp add: add_overlap_def)

lemma add_overlap_jaccard:
  "to_double s = s \<Longrightarrow> add_overlap s A B w = fadd s (fmul w (jaccard A B))"
  by (simp add: add_overlap_def jaccard_def fadd_def fmul_commute)

lemma base_score_spec:
  "base_score t c =
     fadd (if cuisine t = cuisine c then lit_0_4 else 0)
          (if category t = category c then lit_0_3 else 0)"
  by (simp add: base_score_def fadd_def)

lemma base_score_commute: "base_score t c = base_score c t"
  by (simp add: base_score_def)

lemma add_overlap_commute: "add_overlap s A B w = add_overlap s B A w"
  by (simp add: add_overlap_def Int_commute Un_commute)

lemma le_fadd_left: "to_double x = x \<Longrightarrow> 0 \<le> y \<Longrightarrow> x \<le> fadd x y"
  using to_double_mono [of x "x + y"] by (simp add: fadd_def)

lemma le_fadd_right: "to_double y = y \<Longrightarrow> 0 \<le> x \<Longrightarrow> y \<le> fadd x y"
  using to_double_mono [of y "x + y"] by (simp add: fadd_def)

lemma base_score_bounds: "0 \<le> base_score t c" "base_score t c \<le> fadd lit_0_4 lit_0_3"
  using le_fadd_left [of lit_0_4 lit_0_3] le_fadd_right [of lit_0_3 lit_0_4]
  by (simp_all add: base_score_def fadd_nonneg less_imp_le)

lemma fmul_ratio_le:
  assumes "to_double w = w" "0 \<le> w" "finite (A \<union> B)"
  shows "0 \<le> fmul (fdiv (of_nat (card (A \<inter> B))) (of_nat (card (A \<union> B)))) w"
    and "fmul (fdiv (of_nat (card (A \<inter> B))) (of_nat (card (A \<union> B)))) w \<le> w"
proof -
  have "card (A \<inter> B) \<le> card (A \<union> B)" using assms(3) by (intro card_mono) auto
  note b = fdiv_nat_bounds [OF this]
  show "0 \<le> fmul (fdiv (of_nat (card (A \<inter> B))) (of_nat (card (A \<union> B)))) w"
    using b assms(2) by (simp add: fmul_nonneg)
  have "fmul (fdiv (of_nat (card (A \<inter> B))) (of_nat (card (A \<union> B)))) w \<le> fmul 1 w"
    using b assms(2) by (intro fmul_mono) simp_all
  then show "fmul (fdiv (of_nat (card (A \<inter> B))) (of_nat (card (A \<union> B)))) w \<le> w"
    using assms(1) by (simp add: fmul_def)
qed

lemma add_overlap_bounds:
  assumes "0 \<le> s" "s \<le> m" "to_double s = s" "to_double w = w" "0 \<le> w" "finite (A \<union> B)"
  shows "0 \<le> add_overlap s A B w" and "add_overlap s A B w \<le> fadd m w"
proof -
  note r = fmul_ratio_le [OF assms(4,5,6)]
  show "0 \<le> add_overlap s A B w"
    using assms(1) r(1) by (simp add: add_overlap_def fadd_nonneg)
  have "s \<le> fadd m w"
    using to_double_mono [of s "m + w"] assms by (simp add: fadd_def)
  moreover have "fadd s (fmul (fdiv (of_nat (card (A \<inter> B))) (of_nat (card (A \<union> B)))) w)
      \<le> fadd m w"
    using assms(2) r(2) by (rule fadd_mono)
  ultimately show "add_overlap s A B w \<le> fadd m w" by (simp add: add_overlap_def)
qed

lemma add_overlap_full:
  assumes "finite A" "A \<noteq> {}" "to_double w = w"
  shows "add_overlap s A A w = fadd s w"
proof -
  have "0 < card A" using assms by (simp add: card_gt_0_iff)
  then have "fdiv (of_nat (card A)) (of_nat (card A)) = 1" by (simp add: fdiv_def)
  then show ?thesis using assms by (simp add: add_overlap_def fmul_def)
qed

lemma add_overlap_disjoint: "A \<inter> B = {} \<Longrightarrow> add_overlap 0 A B w = 0"
  by (simp add: add_overlap_def)

lemma finite_lowered [simp]: "finite (lowered xs)"
  by (simp add: lowered_def)

lemma max_score_value: "fadd (fadd (fadd lit_0_4 lit_0_3) lit_0_2) lit_0_1 = 1 - 1 / 2 ^ 53"
  by code_simp

lemma calculateSimilarity_bounds:
  "0 \<le> calculateSimilarity t c" "calculateSimilarity t c \<le> 1 - 1 / 2 ^ 53"
proof -
  define s2 where "s2 = base_score t c"
  define s3 where "s3 = add_overlap s2 (lowered (tags t)) (lowered (tags c)) lit_0_2"
  have s2: "0 \<le> s2" "s2 \<le> fadd lit_0_4 lit_0_3" "to_double s2 = s2"
    by (simp_all add: s2_def base_score_bounds)
  have s3: "0 \<le> s3" "s3 \<le> fadd (fadd lit_0_4 lit_0_3) lit_0_2" "to_double s3 = s3"
    unfolding s3_def
    using add_overlap_bounds [OF s2, of lit_0_2] add_overlap_double [OF s2(3)]
    by (simp_all add: less_imp_le)
  have s4: "calculateSimilarity t c
      = add_overlap s3 (lowered (ingredients t)) (lowered (ingredients c)) lit_0_1"
    by (simp add: calculateSimilarity_eq s3_def s2_def)
  show "0 \<le> calculateSimilarity t c" "calculateSimilarity t c \<le> 1 - 1 / 2 ^ 53"
    unfolding s4 max_score_value [symmetric]
    using add_overlap_bounds [OF s3, of lit_0_1] by (simp_all add: less_imp_le)
qed

lemma calculateSimilarity_full_match:
  assumes "cuisine t = cuisine c" "category t = category c"
    and "lowered (tags t) = lowered (tags c)" "tags t \<noteq> []"
    and "lowered (ingredients t) = lowered (ingredients c)" "ingredients t \<noteq> []"
  shows "calculateSimilarity t c = 1 - 1 / 2 ^ 53"
proof -
  have "lowered (tags c) \<noteq> {}" "lowered (ingredients c) \<noteq> {}"
    using assms by (auto simp: lowered_def)
  then show ?thesis
    unfolding calculateSimilarity_eq max_score_value [symmetric]
    using assms by (simp add: add_overlap_full base_score_def)
qed

lemma calculateSimilarity_no_match:
  assumes "cuisine t \<noteq> cuisine c" "category t \<noteq> category c"
    and "lowered (tags t) \<inter> lowered (tags c) = {}"
    and "lowered (ingredients t) \<inter> lowered (ingredients c) = {}"
  shows "calculateSimilarity t c = 0"
  unfolding calculateSimilarity_eq using assms by (simp add: add_overlap_disjoint base_score_def)

subsection \<open>The reason generator\<close>

lemma common_lowered_eq:
  "filter (\<lambda>x. has (new_Set (map toLowerCase cxs)) x) (new_Set (map toLowerCase txs))
   = common_lowered txs cxs"
  by (simp add: common_eq common_lowered_def lowered_def)

lemma set_common_lowered: "set (common_lowered txs cxs) = lowered txs \<inter> lowered cxs"
  by (auto simp: common_lowered_def lowered_def)

lemma distinct_common_lowered: "distinct (common_lowered txs cxs)"
  by (simp add: common_lowered_def)

lemma common_lowered_nonempty:
  "0 < length (common_lowered txs cxs) \<longleftrightarrow> lowered txs \<inter> lowered cxs \<noteq> {}"
  using set_common_lowered [of txs cxs] by (cases "common_lowered txs cxs") auto

lemma generateReasons_eq:
  "generateReasons t c =
     (let rs = cuisine_reason t c @ category_reason t c @ tags_reason t c @
               ingredients_reason t c
      in if rs = [] then [''Similar recipe''] else rs)"
  unfolding generateReasons_def Let_def common_lowered_eq common_lowered_nonempty
  by (simp add: cuisine_reason_def category_reason_def tags_reason_def ingredients_reason_def
      cuisine_match_def category_match_def tags_match_def ingredients_match_def
      slice_0_nonneg)

subsection \<open>The ranker\<close>

lemma foldl_push_candidate:
  "foldl (push_candidate t) acc cs
   = acc @ map (entry_of t) (filter (\<lambda>c. lit_0_1 < calculateSimilarity t c) cs)"
  by (induction cs arbitrary: acc) (simp_all add: push_candidate_def Let_def entry_of_def)

lemma scored_candidates_eq:
  "scored_candidates t pool =
     map (entry_of t)
       (filter (\<lambda>c. lit_0_1 < calculateSimilarity t c)
          (filter (\<lambda>r. id_recipe r \<noteq> id_recipe t) pool))"
  by (simp add: scored_candidates_def foldl_push_candidate)

lemma in_scored_candidates:
  "e \<in> set (scored_candidates t pool) \<longleftrightarrow>
     (\<exists>c \<in> set pool. id_recipe c \<noteq> id_recipe t \<and> lit_0_1 < calculateSimilarity t c
        \<and> e = entry_of t c)"
  by (auto simp: scored_candidates_eq)

lemma set_getRecommendations:
  "set (getRecommendations t pool n) \<subseteq> set (scored_candidates t pool)"
  unfolding getRecommendations_def using set_slice_0 [of _ n] by fastforce

lemma in_getRecommendations:
  assumes "e \<in> set (getRecommendations t pool n)"
  obtains c where "c \<in> set pool" "id_recipe c \<noteq> id_recipe t"
    "lit_0_1 < calculateSimilarity t c" "e = entry_of t c"
  using assms set_getRecommendations [of t pool n] in_scored_candidates [of e t pool]
  by blast

lemma getRecommendations_take:
  "\<exists>m. getRecommendations t pool n
      = take m (array_sort by_score_desc (scored_candidates t pool))"
  unfolding getRecommendations_def by (rule slice_0_take)

subsection \<open>The example catalogue\<close>

lemma score_cake: "calculateSimilarity tiramisu cake = 7205759403792793 / 2 ^ 53"
  by code_simp

lemma score_flan: "calculateSimilarity tiramisu flan = lit_0_3"
  by code_simp

lemma score_noodles: "calculateSimilarity tiramisu noodles = lit_0_1"
  by code_simp

lemma score_yoghurt: "calculateSimilarity tiramisu yoghurt = lit_0_3"
  by code_simp

lemma reasons_cake:
  "generateReasons tiramisu cake =
     [''Same cuisine (Italian)'', ''Same category (Dessert)'', ''Similar tags: sweet'',
      ''Similar ingredients: flour'']"
  by code_simp

lemma example_ids:
  "id_recipe tiramisu = ''1''" "id_recipe cake = ''2''" "id_recipe flan = ''3''"
  "id_recipe noodles = ''4''" "id_recipe yoghurt = ''5''"
  by (simp_all add: tiramisu_def cake_def flan_def noodles_def yoghurt_def)

lemma score_entry_of [simp]: "score (entry_of t c) = calculateSimilarity t c"
  by (simp add: entry_of_def)

lemma recipe_entry_of [simp]: "recipe (entry_of t c) = c"
  by (simp add: entry_of_def)

lemma reasons_entry_of [simp]: "reasons (entry_of t c) = generateReasons t c"
  by (simp add: entry_of_def)

lemma scored_catalogue:
  "scored_candidates tiramisu catalogue =
     [entry_of tiramisu flan, entry_of tiramisu yoghurt, entry_of tiramisu cake]"
  unfolding scored_candidates_eq catalogue_def
  by (simp add: example_ids score_cake score_flan score_noodles score_yoghurt
      lit_0_1_eq lit_0_3_eq)

lemma sorted_catalogue:
  "array_sort by_score_desc (scored_candidates tiramisu catalogue) =
     [entry_of tiramisu cake, entry_of tiramisu flan, entry_of tiramisu yoghurt]"
  unfolding scored_catalogue
  by (simp add: by_score_desc_le_0 score_cake score_flan score_yoghurt lit_0_3_eq)

lemma recommendations_catalogue:
  "getRecommendations tiramisu catalogue 6 =
     [entry_of tiramisu cake, entry_of tiramisu flan, entry_of tiramisu yoghurt]"
  unfolding getRecommendations_def sorted_catalogue by (simp add: slice_0_nonneg)

lemma recommendations_catalogue_neg:
  "getRecommendations tiramisu catalogue (- 1) = [entry_of tiramisu cake, entry_of tiramisu flan]"
  unfolding getRecommendations_def sorted_catalogue by (simp add: slice_0_neg)

subsection \<open>Factors and reasons\<close>

lemma tags_match_iff: "tags_match t c \<longleftrightarrow> common_lowered (tags t) (tags c) \<noteq> []"
  using common_lowered_nonempty [of "tags t" "tags c"] by (simp add: tags_match_def)

lemma ingredients_match_iff:
  "ingredients_match t c \<longleftrightarrow> common_lowered (ingredients t) (ingredients c) \<noteq> []"
  using common_lowered_nonempty [of "ingredients t" "ingredients c"]
  by (simp add: ingredients_match_def)

lemma specific_reasons_not_fallback:
  "cuisine_reason t c @ category_reason t c @ tags_reason t c @ ingredients_reason t c
   \<noteq> [''Similar recipe'']"
  by (simp add: cuisine_reason_def category_reason_def tags_reason_def ingredients_reason_def)

lemma specific_reasons_empty_iff:
  "cuisine_reason t c @ category_reason t c @ tags_reason t c @ ingredients_reason t c = []
   \<longleftrightarrow> \<not> (cuisine_match t c \<or> category_match t c \<or> tags_match t c \<or> ingredients_match t c)"
  by (simp add: cuisine_reason_def category_reason_def tags_reason_def ingredients_reason_def)

lemma generateReasons_cases:
  "generateReasons t c =
     (if cuisine_match t c \<or> category_match t c \<or> tags_match t c \<or> ingredients_match t c
      then cuisine_reason t c @ category_reason t c @ tags_reason t c @ ingredients_reason t c
      else [''Similar recipe''])"
  unfolding generateReasons_eq Let_def specific_reasons_empty_iff by simp

lemma some_factor_matches:
  assumes "lit_0_1 < calculateSimilarity t c"
  shows "cuisine_match t c \<or> category_match t c \<or> tags_match t c \<or> ingredients_match t c"
proof (rule ccontr)
  assume "\<not> ?thesis"
  then have "calculateSimilarity t c = 0"
    by (intro calculateSimilarity_no_match)
      (simp_all add: cuisine_match_def category_match_def tags_match_def ingredients_match_def)
  then show False using assms lit_pos(4) by simp
qed

lemma example_matches:
  "cuisine_match tiramisu cake" "category_match tiramisu cake"
  "tags_match tiramisu cake" "ingredients_match tiramisu cake"
  "\<not> cuisine_match tiramisu curry" "\<not> category_match tiramisu curry"
  "\<not> tags_match tiramisu curry" "\<not> ingredients_match tiramisu curry"
  unfolding tags_match_iff ingredients_match_iff cuisine_match_def category_match_def
  by code_simp+

lemma length_scored_catalogue: "length (scored_candidates tiramisu catalogue) = 3"
  by (simp add: scored_catalogue)

lemma example_common:
  "common_lowered (tags tiramisu) (tags cake) = [''sweet'']"
  "common_lowered (ingredients tiramisu) (ingredients cake) = [''flour'']"
  "common_original (tags tiramisu) (tags cake) = [''Sweet'']"
  by code_simp+

lemma score_classico: "calculateSimilarity tiramisu tiramisu_classico = 1 - 1 / 2 ^ 53"
  by (rule calculateSimilarity_full_match) (simp_all add: tiramisu_def tiramisu_classico_def)

lemma score_empty_lists: "calculateSimilarity flan flan = fadd lit_0_4 lit_0_3"
  by code_simp

subsection \<open>When the maximal score is attained\<close>

lemma near_one_double: "to_double (1 - 1 / 2 ^ 40) = 1 - 1 / 2 ^ 40"
  by code_simp

lemma card_lowered_union:
  "card (lowered xs \<union> lowered ys) \<le> length xs + length ys"
proof -
  have "card (lowered xs \<union> lowered ys) \<le> card (lowered xs) + card (lowered ys)"
    by (rule card_Un_le)
  moreover have "card (lowered xs) \<le> length xs" "card (lowered ys) \<le> length ys"
    unfolding lowered_def by (metis card_image_le card_length finite_set le_trans)+
  ultimately show ?thesis by linarith
qed

lemma ratio_below_one:
  assumes "finite (A \<union> B)" "A \<noteq> B" "card (A \<union> B) \<le> 2 ^ 40"
  shows "fdiv (of_nat (card (A \<inter> B))) (of_nat (card (A \<union> B))) \<le> 1 - 1 / 2 ^ 40"
proof -
  define i where "i = card (A \<inter> B)"
  define u where "u = card (A \<union> B)"
  have "A \<inter> B \<subset> A \<union> B" using assms(2) by blast
  then have "i < u" unfolding i_def u_def using assms(1) by (rule psubset_card_mono [rotated])
  then have upos: "0 < u" and iu: "i + 1 \<le> u" by simp_all
  have "rat_of_nat i + 1 \<le> of_nat u" using iu by (metis of_nat_1 of_nat_add of_nat_le_iff)
  then have "rat_of_nat i / of_nat u \<le> (of_nat u - 1) / of_nat u"
    using upos by (simp add: divide_right_mono)
  also have "\<dots> = 1 - 1 / of_nat u" using upos by (simp add: diff_divide_distrib)
  also have "\<dots> \<le> 1 - 1 / 2 ^ 40"
  proof -
    have "rat_of_nat u \<le> of_nat (2 ^ 40)" using assms(3) unfolding u_def by (simp only: of_nat_le_iff)
    then have "rat_of_nat u \<le> 2 ^ 40" by simp
    then have "1 / 2 ^ 40 \<le> 1 / rat_of_nat u" using upos by (simp add: frac_le)
    then show ?thesis by simp
  qed
  finally have "rat_of_nat i / of_nat u \<le> 1 - 1 / 2 ^ 40" .
  then have "to_double (rat_of_nat i / of_nat u) \<le> to_double (1 - 1 / 2 ^ 40)"
    by (rule to_double_mono)
  then show ?thesis unfolding fdiv_def i_def u_def near_one_double .
qed

lemma add_overlap_le:
  assumes "0 \<le> s" "s \<le> m" "to_double s = s" "0 \<le> w" "0 \<le> q" "finite (A \<union> B)"
    and "A \<union> B \<noteq> {} \<Longrightarrow> fdiv (of_nat (card (A \<inter> B))) (of_nat (card (A \<union> B))) \<le> q"
  shows "add_overlap s A B w \<le> fadd m (fmul q w)"
proof (cases "A \<union> B = {}")
  case True
  have "0 \<le> fmul q w" using assms(4,5) by (simp add: fmul_nonneg)
  then have "s \<le> fadd m (fmul q w)"
    using to_double_mono [of s "m + fmul q w"] assms(2,3) by (simp add: fadd_def)
  then show ?thesis using True by (simp add: add_overlap_def)
next
  case False
  have "card (A \<inter> B) \<le> card (A \<union> B)" using assms(6) by (intro card_mono) auto
  note b = fdiv_nat_bounds [OF this]
  have "fmul (fdiv (of_nat (card (A \<inter> B))) (of_nat (card (A \<union> B)))) w \<le> fmul q w"
    using b assms(4) assms(7) [OF False] by (intro fmul_mono) simp_all
  then have "fadd s (fmul (fdiv (of_nat (card (A \<inter> B))) (of_nat (card (A \<union> B)))) w)
      \<le> fadd m (fmul q w)"
    using assms(2) by (intro fadd_mono)
  then show ?thesis unfolding add_overlap_def using False by (simp only: if_False)
qed

lemma add_overlap_empty: "A \<union> B = {} \<Longrightarrow> add_overlap s A B w = s"
  by (simp add: add_overlap_def)

lemma below_max_values:
  "fadd (fadd lit_0_4 lit_0_2) lit_0_1 < 1 - 1 / 2 ^ 53"
  "fadd (fadd lit_0_4 lit_0_3) lit_0_1 < 1 - 1 / 2 ^ 53"
  "fadd (fadd lit_0_4 lit_0_3) lit_0_2 < 1 - 1 / 2 ^ 53"
  "fadd (fadd (fadd lit_0_4 lit_0_3) (fmul (1 - 1 / 2 ^ 40) lit_0_2)) lit_0_1 < 1 - 1 / 2 ^ 53"
  "fadd (fadd (fadd lit_0_4 lit_0_3) lit_0_2) (fmul (1 - 1 / 2 ^ 40) lit_0_1) < 1 - 1 / 2 ^ 53"
  "lit_0_3 \<le> lit_0_4"
  by code_simp+

lemma max_score_only_if:
  assumes len: "length (tags t) + length (tags c) \<le> 2 ^ 40"
      "length (ingredients t) + length (ingredients c) \<le> 2 ^ 40"
    and mx: "calculateSimilarity t c = 1 - 1 / 2 ^ 53"
  shows "cuisine t = cuisine c \<and> category t = category c
    \<and> lowered (tags t) = lowered (tags c) \<and> tags t \<noteq> []
    \<and> lowered (ingredients t) = lowered (ingredients c) \<and> ingredients t \<noteq> []"
proof -
  define TA where "TA = lowered (tags t)"
  define TB where "TB = lowered (tags c)"
  define IA where "IA = lowered (ingredients t)"
  define IB where "IB = lowered (ingredients c)"
  define s2 where "s2 = base_score t c"
  define s3 where "s3 = add_overlap s2 TA TB lit_0_2"
  define s4 where "s4 = add_overlap s3 IA IB lit_0_1"
  define d07 where "d07 = fadd lit_0_4 lit_0_3"
  define K :: rat where "K = 1 - 1 / 2 ^ 40"
  have fin: "finite (TA \<union> TB)" "finite (IA \<union> IB)"
    by (simp_all add: TA_def TB_def IA_def IB_def)
  have cardT: "card (TA \<union> TB) \<le> 2 ^ 40"
    using card_lowered_union [of "tags t" "tags c"] len(1) unfolding TA_def TB_def by linarith
  have cardI: "card (IA \<union> IB) \<le> 2 ^ 40"
    using card_lowered_union [of "ingredients t" "ingredients c"] len(2)
    unfolding IA_def IB_def by linarith
  have K0: "0 \<le> K" by (simp add: K_def)
  have s4: "calculateSimilarity t c = s4"
    by (simp add: calculateSimilarity_eq s4_def s3_def s2_def TA_def TB_def IA_def IB_def)
  have s2: "0 \<le> s2" "s2 \<le> d07" "to_double s2 = s2"
    by (simp_all add: s2_def d07_def base_score_bounds)
  have s3: "0 \<le> s3" "s3 \<le> fadd d07 lit_0_2" "to_double s3 = s3"
    unfolding s3_def
    using add_overlap_bounds [OF s2 _ _ fin(1), of lit_0_2] add_overlap_double [OF s2(3)]
    by (simp_all add: less_imp_le)
  have l: "0 \<le> lit_0_2" "0 \<le> lit_0_1" by (simp_all add: less_imp_le)
  \<comment> \<open>cuisine and category\<close>
  have base: "cuisine t = cuisine c \<and> category t = category c"
  proof (rule ccontr)
    assume "\<not> ?thesis"
    then have "s2 \<le> lit_0_4"
      using below_max_values(6) by (auto simp: s2_def base_score_def less_imp_le)
    then have "s3 \<le> fadd lit_0_4 lit_0_2"
      unfolding s3_def using add_overlap_bounds(2) [OF s2(1) _ s2(3) _ l(1) fin(1)] by simp
    then have "s4 \<le> fadd (fadd lit_0_4 lit_0_2) lit_0_1"
      unfolding s4_def using add_overlap_bounds(2) [OF s3(1) _ s3(3) _ l(2) fin(2)] by simp
    then show False using below_max_values(1) mx s4 by simp
  qed
  \<comment> \<open>tags\<close>
  have tags_ne: "TA \<union> TB \<noteq> {}"
  proof
    assume "TA \<union> TB = {}"
    then have "s3 \<le> d07" using s2(2) by (simp add: s3_def add_overlap_empty)
    then have "s4 \<le> fadd d07 lit_0_1"
      unfolding s4_def using add_overlap_bounds(2) [OF s3(1) _ s3(3) _ l(2) fin(2)] by simp
    then show False using below_max_values(2) mx s4 by (simp add: d07_def)
  qed
  have tags_eq: "TA = TB"
  proof (rule ccontr)
    assume ne: "TA \<noteq> TB"
    have "s3 \<le> fadd d07 (fmul K lit_0_2)"
      unfolding s3_def K_def
      using s2 l(1) K0 [unfolded K_def] fin(1) ratio_below_one [OF fin(1) ne cardT]
      by (intro add_overlap_le) simp_all
    then have "s4 \<le> fadd (fadd d07 (fmul K lit_0_2)) lit_0_1"
      unfolding s4_def using add_overlap_bounds(2) [OF s3(1) _ s3(3) _ l(2) fin(2)] by simp
    then show False using below_max_values(4) mx s4 by (simp add: d07_def K_def)
  qed
  \<comment> \<open>ingredients\<close>
  have ing_ne: "IA \<union> IB \<noteq> {}"
  proof
    assume "IA \<union> IB = {}"
    then have "s4 \<le> fadd d07 lit_0_2" using s3(2) by (simp add: s4_def add_overlap_empty)
    then show False using below_max_values(3) mx s4 by (simp add: d07_def)
  qed
  have ing_eq: "IA = IB"
  proof (rule ccontr)
    assume ne: "IA \<noteq> IB"
    have "s4 \<le> fadd (fadd d07 lit_0_2) (fmul K lit_0_1)"
      unfolding s4_def K_def
      using s3 l(2) K0 [unfolded K_def] fin(2) ratio_below_one [OF fin(2) ne cardI]
      by (intro add_overlap_le) simp_all
    then show False using below_max_values(5) mx s4 by (simp add: d07_def K_def)
  qed
  have "tags t \<noteq> []" using tags_ne tags_eq by (auto simp: TA_def TB_def lowered_def)
  moreover have "ingredients t \<noteq> []"
    using ing_ne ing_eq by (auto simp: IA_def IB_def lowered_def)
  ultimately show ?thesis
    using base tags_eq ing_eq by (simp add: TA_def TB_def IA_def IB_def)
qed

subsection \<open>The route of the server computes the engine's entries\<close>

text \<open>
  The callback of the route gives every candidate the entry the engine gives it, so on
  the rows of the query, none of which has the target's id, the route returns what
  \<open>getRecommendations\<close> returns, and the theorems about the engine hold for it.
\<close>

lemma new_Set_common_lowered: "new_Set (common_lowered txs cxs) = common_lowered txs cxs"
  by (rule new_Set_distinct) (rule distinct_common_lowered)

lemma route_overlap_step:
  assumes "0 \<le> n"
  shows
  "(let intersection =
          new_Set (filter (\<lambda>x. has (new_Set (map toLowerCase cxs)) x)
            (new_Set (map toLowerCase txs)));
        union = new_Set (new_Set (map toLowerCase txs) @ new_Set (map toLowerCase cxs))
    in if size_Set union > 0
       then let similarity = fdiv (of_nat (size_Set intersection)) (of_nat (size_Set union));
                score' = fadd s (fmul similarity w)
            in if size_Set intersection > 0
               then let common = slice intersection 0 n
                    in (score', rs @ [label @ join common '', ''])
               else (score', rs)
       else (s, rs))
   = (add_overlap s (lowered txs) (lowered cxs) w,
      rs @ (if lowered txs \<inter> lowered cxs \<noteq> {}
            then [label @ join (take (nat n) (common_lowered txs cxs)) '', ''] else []))"
proof -
  have i: "new_Set (filter (\<lambda>x. has (new_Set (map toLowerCase cxs)) x)
        (new_Set (map toLowerCase txs))) = common_lowered txs cxs"
    by (simp add: common_lowered_eq new_Set_common_lowered)
  have c: "size_Set (common_lowered txs cxs) = card (lowered txs \<inter> lowered cxs)"
    using distinct_card [OF distinct_common_lowered, of txs cxs]
    by (simp add: size_Set_def set_common_lowered)
  have u: "size_Set (new_Set (new_Set (map toLowerCase txs) @ new_Set (map toLowerCase cxs)))
      = card (lowered txs \<union> lowered cxs)"
    by (simp only: size_union lowered_def set_map)
  have zu: "0 < card (lowered txs \<union> lowered cxs) \<longleftrightarrow> lowered txs \<union> lowered cxs \<noteq> {}"
    by (simp add: card_gt_0_iff)
  have zi: "0 < card (lowered txs \<inter> lowered cxs) \<longleftrightarrow> lowered txs \<inter> lowered cxs \<noteq> {}"
    by (simp add: card_gt_0_iff)
  have e: "lowered txs \<union> lowered cxs = {} \<Longrightarrow> lowered txs \<inter> lowered cxs = {}"
    by blast
  show ?thesis
    unfolding Let_def i c u zu zi
    using e by (simp add: add_overlap_def slice_0_nonneg [OF assms])
qed

lemma score_candidate_entry_of: "score_candidate t c = entry_of t c"
proof -
  note o3 = route_overlap_step [of 3, unfolded Let_def, simplified]
  note o2 = route_overlap_step [of 2, unfolded Let_def, simplified]
  show ?thesis
    unfolding score_candidate_def Let_def o3 o2
    unfolding entry_of_def calculateSimilarity_eq generateReasons_eq Let_def
    by (simp add: base_score_def cuisine_reason_def category_reason_def tags_reason_def
        ingredients_reason_def cuisine_match_def category_match_def tags_match_def
        ingredients_match_def lit_0_4_def lit_0_3_def)
qed

lemma route_recommendations_eq:
  assumes "\<forall>c \<in> set candidates. id_recipe c \<noteq> id_recipe t"
  shows "route_recommendations t candidates (Some n) = getRecommendations t candidates n"
proof -
  have "filter (\<lambda>r. id_recipe r \<noteq> id_recipe t) candidates = candidates"
    using assms by (simp add: filter_id_conv)
  then have "scored_candidates t candidates
      = map (entry_of t) (filter (\<lambda>c. lit_0_1 < calculateSimilarity t c) candidates)"
    by (simp add: scored_candidates_eq)
  moreover have "filter (\<lambda>rec. score rec > lit_0_1) (map (score_candidate t) candidates)
      = map (entry_of t) (filter (\<lambda>c. lit_0_1 < calculateSimilarity t c) candidates)"
    by (simp add: filter_map comp_def score_candidate_entry_of)
  ultimately show ?thesis
    by (simp add: route_recommendations_def getRecommendations_def)
qed

lemma route_recommendations_NaN: "route_recommendations t candidates None = []"
  by (simp add: route_recommendations_def slice_def)

section \<open>The claims\<close>

text \<open>
  C1.  The score of a pair of recipes is 0.4 if the cuisines are equal (as strings, case
  included), plus 0.3 if the categories are equal, plus 0.2 times the Jaccard ratio of
  the lower-cased tag sets, plus 0.1 times the Jaccard ratio of the lower-cased
  ingredient sets, a ratio being 0 when the union is empty.
\<close>

theorem score_is_weighted_sum:
  "calculateSimilarity target candidate = score_spec target candidate"
proof -
  define s2 where "s2 = base_score target candidate"
  define s3 where
    "s3 = add_overlap s2 (lowered (tags target)) (lowered (tags candidate)) lit_0_2"
  have d2: "to_double s2 = s2" by (simp add: s2_def)
  then have d3: "to_double s3 = s3" unfolding s3_def by (rule add_overlap_double)
  have "calculateSimilarity target candidate
      = add_overlap s3 (lowered (ingredients target)) (lowered (ingredients candidate)) lit_0_1"
    by (simp add: calculateSimilarity_eq s3_def s2_def)
  also have "\<dots> = fadd s3 (fmul lit_0_1
      (jaccard (lowered (ingredients target)) (lowered (ingredients candidate))))"
    using d3 by (rule add_overlap_jaccard)
  also have "s3 = fadd s2 (fmul lit_0_2
      (jaccard (lowered (tags target)) (lowered (tags candidate))))"
    unfolding s3_def using d2 by (rule add_overlap_jaccard)
  also have "s2 = fadd (if cuisine target = cuisine candidate then lit_0_4 else 0)
      (if category target = category candidate then lit_0_3 else 0)"
    unfolding s2_def by (rule base_score_spec)
  finally show ?thesis by (simp only: score_spec_def)
qed

theorem score_is_weighted_sum_witness:
  "score_spec tiramisu cake = 7205759403792793 / 2 ^ 53"
  using score_is_weighted_sum [of tiramisu cake] by (simp add: score_cake)

text \<open>
  C2.  Every entry of a result of \<open>getRecommendations\<close> has a score strictly above 0.1,
  the score the scorer gives its recipe; a candidate whose score is exactly 0.1 is in
  no entry of the result.
\<close>

theorem threshold_is_exclusive:
  "(\<forall>e \<in> set (getRecommendations target pool limit).
      lit_0_1 < score e \<and> score e = calculateSimilarity target (recipe e))
   \<and> (\<forall>c. calculateSimilarity target c = lit_0_1
        \<longrightarrow> c \<notin> recipe ` set (getRecommendations target pool limit))"
proof (intro conjI ballI allI impI)
  fix e
  assume "e \<in> set (getRecommendations target pool limit)"
  then obtain c where "lit_0_1 < calculateSimilarity target c" "e = entry_of target c"
    by (rule in_getRecommendations)
  then show "lit_0_1 < score e" and "score e = calculateSimilarity target (recipe e)"
    by simp_all
next
  fix c
  assume exact: "calculateSimilarity target c = lit_0_1"
  show "c \<notin> recipe ` set (getRecommendations target pool limit)"
  proof
    assume "c \<in> recipe ` set (getRecommendations target pool limit)"
    then obtain e where e: "e \<in> set (getRecommendations target pool limit)" "c = recipe e"
      by blast
    from e(1) obtain c' where "lit_0_1 < calculateSimilarity target c'" "e = entry_of target c'"
      by (rule in_getRecommendations)
    then have "lit_0_1 < calculateSimilarity target c" using e(2) by simp
    then show False using exact by simp
  qed
qed

theorem threshold_is_exclusive_witness:
  "entry_of tiramisu flan \<in> set (getRecommendations tiramisu catalogue 6)
   \<and> lit_0_1 < score (entry_of tiramisu flan)
   \<and> noodles \<in> set catalogue
   \<and> calculateSimilarity tiramisu noodles = lit_0_1
   \<and> noodles \<notin> recipe ` set (getRecommendations tiramisu catalogue 6)"
proof -
  have m: "entry_of tiramisu flan \<in> set (getRecommendations tiramisu catalogue 6)"
    by (simp add: recommendations_catalogue)
  note t = threshold_is_exclusive [of tiramisu catalogue 6]
  from t m have "lit_0_1 < score (entry_of tiramisu flan)" by blast
  moreover from t score_noodles
  have "noodles \<notin> recipe ` set (getRecommendations tiramisu catalogue 6)" by blast
  moreover have "noodles \<in> set catalogue" by (simp add: catalogue_def)
  ultimately show ?thesis using m score_noodles by simp
qed

text \<open>
  C3.  The scores of a result of \<open>getRecommendations\<close> do not increase from first to
  last, and for every score the entries of the result with that score are, in this
  order, an initial segment of the entries with that score in the sequence of the
  candidates that passed the threshold: ties keep the order of that sequence.
\<close>

theorem ranking_sorted_and_stable:
  "sorted_wrt (\<lambda>a b. score b \<le> score a) (getRecommendations target pool limit)
   \<and> (\<forall>k. prefix (filter (\<lambda>e. score e = k) (getRecommendations target pool limit))
                  (filter (\<lambda>e. score e = k) (scored_candidates target pool)))"
proof (intro conjI allI)
  obtain m where m: "getRecommendations target pool limit
      = take m (array_sort by_score_desc (scored_candidates target pool))"
    using getRecommendations_take by blast
  show "sorted_wrt (\<lambda>a b. score b \<le> score a) (getRecommendations target pool limit)"
    unfolding m by (rule sorted_wrt_take) (rule sorted_array_sort [OF by_score_desc_le_0])
next
  fix k
  have "prefix (getRecommendations target pool limit)
      (array_sort by_score_desc (scored_candidates target pool))"
    unfolding getRecommendations_def by (rule slice_0_prefix)
  then have "prefix (filter (\<lambda>e. score e = k) (getRecommendations target pool limit))
      (filter (\<lambda>e. score e = k)
         (array_sort by_score_desc (scored_candidates target pool)))"
    by (rule filter_mono_prefix)
  then show "prefix (filter (\<lambda>e. score e = k) (getRecommendations target pool limit))
      (filter (\<lambda>e. score e = k) (scored_candidates target pool))"
    by (simp only: array_sort_stable [OF by_score_desc_le_0])
qed

theorem ranking_sorted_and_stable_witness:
  "scored_candidates tiramisu catalogue =
     [entry_of tiramisu flan, entry_of tiramisu yoghurt, entry_of tiramisu cake]
   \<and> getRecommendations tiramisu catalogue 6 =
     [entry_of tiramisu cake, entry_of tiramisu flan, entry_of tiramisu yoghurt]
   \<and> sorted_wrt (\<lambda>a b. score b \<le> score a) (getRecommendations tiramisu catalogue 6)
   \<and> prefix (filter (\<lambda>e. score e = lit_0_3) (getRecommendations tiramisu catalogue 6))
        [entry_of tiramisu flan, entry_of tiramisu yoghurt]"
proof -
  have "filter (\<lambda>e. score e = lit_0_3) (scored_candidates tiramisu catalogue)
      = [entry_of tiramisu flan, entry_of tiramisu yoghurt]"
    by (simp add: scored_catalogue score_flan score_yoghurt score_cake lit_0_3_eq)
  then show ?thesis
    using ranking_sorted_and_stable [of tiramisu catalogue 6]
      scored_catalogue recommendations_catalogue
    by metis
qed

text \<open>
  C4 (amended).  For a limit of at least 0 the result of \<open>getRecommendations\<close> is the
  first \<open>limit\<close> entries of the sorted sequence, so it has at most \<open>limit\<close> entries,
  and it is empty for the limit 0.  For a negative limit \<open>slice\<close> counts the end from the
  back of the array: the result is the sorted sequence without its last \<open>- limit\<close>
  entries.  No limit raises an error.
\<close>

theorem truncation_to_limit:
  "(0 \<le> limit \<longrightarrow>
      getRecommendations target pool limit
        = take (nat limit) (array_sort by_score_desc (scored_candidates target pool))
      \<and> int (length (getRecommendations target pool limit)) \<le> limit)
   \<and> getRecommendations target pool 0 = []
   \<and> (limit < 0 \<longrightarrow>
      getRecommendations target pool limit
        = take (length (scored_candidates target pool) - nat (- limit))
            (array_sort by_score_desc (scored_candidates target pool)))"
  unfolding getRecommendations_def
  by (auto simp: slice_0_nonneg slice_0_neg)

theorem truncation_to_limit_witness:
  "getRecommendations tiramisu catalogue 2 = [entry_of tiramisu cake, entry_of tiramisu flan]
   \<and> int (length (getRecommendations tiramisu catalogue 2)) \<le> 2
   \<and> getRecommendations tiramisu catalogue 0 = []
   \<and> getRecommendations tiramisu catalogue (- 2) = [entry_of tiramisu cake]"
  using truncation_to_limit [of 2 tiramisu catalogue]
    truncation_to_limit [of "- 2" tiramisu catalogue]
  unfolding sorted_catalogue length_scored_catalogue by simp

text \<open>
  The claim as the specification states it (an empty result for every limit of at most
  0, a length of at most the limit) fails at the limit -1: the three qualifying
  candidates of the example yield two entries.
\<close>

theorem negative_limit_counterexample:
  "(- 1 :: int) \<le> 0
   \<and> getRecommendations tiramisu catalogue (- 1) \<noteq> []
   \<and> \<not> int (length (getRecommendations tiramisu catalogue (- 1))) \<le> - 1"
  by (simp add: recommendations_catalogue_neg)

text \<open>
  C5 (amended).  The reason strings name the lower-cased entries, not the target's
  spelling.  When the lower-cased tag sets (ingredient sets) of target and candidate
  intersect, the reasons contain \<open>Similar tags:\<close> (\<open>Similar ingredients:\<close>) followed
  by the first 3 (first 2) of the common lower-cased entries, joined by a comma and a
  space; the common entries are the distinct lower-cased entries of the target that occur
  lower-cased in the candidate, in the order of their first occurrence in the target's
  list.
\<close>

theorem reasons_name_lowered_entries:
  "(tags_match target candidate \<longrightarrow>
      ''Similar tags: '' @ join (take 3 (common_lowered (tags target) (tags candidate))) '', ''
        \<in> set (generateReasons target candidate))
   \<and> (ingredients_match target candidate \<longrightarrow>
      ''Similar ingredients: '' @
        join (take 2 (common_lowered (ingredients target) (ingredients candidate))) '', ''
        \<in> set (generateReasons target candidate))
   \<and> set (common_lowered xs ys) = lowered xs \<inter> lowered ys
   \<and> distinct (common_lowered xs ys)"
  by (simp add: generateReasons_cases tags_reason_def ingredients_reason_def
      set_common_lowered distinct_common_lowered)

theorem reasons_name_lowered_entries_witness:
  "tags_match tiramisu cake \<and> ingredients_match tiramisu cake
   \<and> ''Similar tags: sweet'' \<in> set (generateReasons tiramisu cake)
   \<and> ''Similar ingredients: flour'' \<in> set (generateReasons tiramisu cake)"
  using reasons_name_lowered_entries [of tiramisu cake]
  by (simp add: example_matches example_common)

text \<open>
  The claim as the specification states it (the target's original spelling) fails for
  the target's tag \<open>Sweet\<close> and the candidate's tag \<open>sweet\<close>: the reason that names the
  target's spelling is not among the reasons, the lower-cased one is.
\<close>

theorem original_casing_counterexample:
  "tags_match tiramisu cake
   \<and> common_original (tags tiramisu) (tags cake) = [''Sweet'']
   \<and> ''Similar tags: '' @ join (take 3 (common_original (tags tiramisu) (tags cake))) '', ''
        \<notin> set (generateReasons tiramisu cake)
   \<and> ''Similar tags: sweet'' \<in> set (generateReasons tiramisu cake)"
  by (simp add: example_matches example_common reasons_cake)

text \<open>
  C6.  No entry of a result of \<open>getRecommendations\<close> has the target's id: the entries of
  the pool with that id are removed before any candidate is scored, so the result is
  that of the pool without them.
\<close>

theorem target_is_excluded:
  "(\<forall>e \<in> set (getRecommendations target pool limit).
      id_recipe (recipe e) \<noteq> id_recipe target)
   \<and> getRecommendations target pool limit
      = getRecommendations target
          (filter (\<lambda>r. id_recipe r \<noteq> id_recipe target) pool) limit"
proof (intro conjI ballI)
  fix e
  assume "e \<in> set (getRecommendations target pool limit)"
  then obtain c where "id_recipe c \<noteq> id_recipe target" "e = entry_of target c"
    by (rule in_getRecommendations)
  then show "id_recipe (recipe e) \<noteq> id_recipe target" by simp
next
  show "getRecommendations target pool limit
      = getRecommendations target
          (filter (\<lambda>r. id_recipe r \<noteq> id_recipe target) pool) limit"
    by (simp add: getRecommendations_def scored_candidates_def)
qed

theorem target_is_excluded_witness:
  "tiramisu \<in> set catalogue
   \<and> entry_of tiramisu cake \<in> set (getRecommendations tiramisu catalogue 6)
   \<and> id_recipe (recipe (entry_of tiramisu cake)) \<noteq> id_recipe tiramisu
   \<and> tiramisu \<notin> recipe ` set (getRecommendations tiramisu catalogue 6)"
proof -
  have m: "entry_of tiramisu cake \<in> set (getRecommendations tiramisu catalogue 6)"
    by (simp add: recommendations_catalogue)
  note t = target_is_excluded [of tiramisu catalogue 6, THEN conjunct1]
  from t m have "id_recipe (recipe (entry_of tiramisu cake)) \<noteq> id_recipe tiramisu" by blast
  moreover from t have "tiramisu \<notin> recipe ` set (getRecommendations tiramisu catalogue 6)"
    by auto
  moreover have "tiramisu \<in> set catalogue" by (simp add: catalogue_def)
  ultimately show ?thesis using m by simp
qed

text \<open>
  C7 (amended).  The score lies in the closed interval from 0 to 1, but the value 1.0
  is never attained: a pair that agrees in cuisine, category, all tags and all
  ingredients scores \<open>1 - 2^-53\<close> (printed 0.9999999999999999), because the binary64
  sums 0.4 + 0.3, 0.7 + 0.2 and 0.9 + 0.1 are each rounded.  The score is at most
  \<open>1 - 2^-53\<close>; a full match (equal cuisine and category, equal and non-empty
  lower-cased tag sets and ingredient sets) attains this maximum, and for lists of at
  most \<open>2^40\<close> entries nothing else does.
\<close>

theorem score_bounds:
  "0 \<le> calculateSimilarity target candidate
   \<and> calculateSimilarity target candidate \<le> 1 - 1 / 2 ^ 53
   \<and> calculateSimilarity target candidate < 1
   \<and> (full_match target candidate
        \<longrightarrow> calculateSimilarity target candidate = 1 - 1 / 2 ^ 53)
   \<and> (length (tags target) + length (tags candidate) \<le> 2 ^ 40
        \<and> length (ingredients target) + length (ingredients candidate) \<le> 2 ^ 40
        \<and> calculateSimilarity target candidate = 1 - 1 / 2 ^ 53
        \<longrightarrow> full_match target candidate)"
proof -
  note b = calculateSimilarity_bounds [of target candidate]
  have "(1::rat) - 1 / 2 ^ 53 < 1" by simp
  then have "calculateSimilarity target candidate < 1"
    using b(2) by (rule le_less_trans [rotated])
  moreover have "full_match target candidate
      \<longrightarrow> calculateSimilarity target candidate = 1 - 1 / 2 ^ 53"
    unfolding full_match_def using calculateSimilarity_full_match [of target candidate]
    by blast
  moreover have "length (tags target) + length (tags candidate) \<le> 2 ^ 40
      \<and> length (ingredients target) + length (ingredients candidate) \<le> 2 ^ 40
      \<and> calculateSimilarity target candidate = 1 - 1 / 2 ^ 53
      \<longrightarrow> full_match target candidate"
    unfolding full_match_def using max_score_only_if [of target candidate] by blast
  ultimately show ?thesis using b by blast
qed

theorem score_bounds_witness:
  "full_match tiramisu tiramisu_classico
   \<and> length (tags tiramisu) + length (tags tiramisu_classico) \<le> 2 ^ 40
   \<and> length (ingredients tiramisu) + length (ingredients tiramisu_classico) \<le> 2 ^ 40
   \<and> calculateSimilarity tiramisu tiramisu_classico = 1 - 1 / 2 ^ 53
   \<and> 0 \<le> calculateSimilarity tiramisu cake
   \<and> calculateSimilarity tiramisu cake < 1"
proof -
  have f: "full_match tiramisu tiramisu_classico"
    by (simp add: full_match_def tiramisu_def tiramisu_classico_def)
  have l: "length (tags tiramisu) + length (tags tiramisu_classico) \<le> 2 ^ 40"
    "length (ingredients tiramisu) + length (ingredients tiramisu_classico) \<le> 2 ^ 40"
    by (simp_all add: tiramisu_def tiramisu_classico_def)
  show ?thesis
    using f l score_bounds [of tiramisu tiramisu_classico] score_bounds [of tiramisu cake]
    by blast
qed

text \<open>
  The claim as the specification states it (1.0 attained when cuisine, category, all tags
  and all ingredients match) fails for two recipes that agree in all four.  Agreement on
  empty lists gives even less: by \<open>score_empty_lists\<close> a recipe without tags and
  ingredients scores 0.4 + 0.3 against itself, since a factor with an empty union
  contributes nothing.
\<close>

theorem full_match_counterexample:
  "cuisine tiramisu_classico = cuisine tiramisu
   \<and> category tiramisu_classico = category tiramisu
   \<and> tags tiramisu_classico = tags tiramisu
   \<and> ingredients tiramisu_classico = ingredients tiramisu
   \<and> calculateSimilarity tiramisu tiramisu_classico \<noteq> 1"
  by (simp add: score_classico) (simp add: tiramisu_def tiramisu_classico_def)

text \<open>
  C8.  The reason generator never returns an empty list.  When at least one of the four
  factors matches, the reasons are the cuisine reason, the category reason, the tags
  reason and the ingredients reason in this order, each present exactly when its factor
  matches; when none matches, the result is the single fallback \<open>Similar recipe\<close>.
\<close>

theorem reasons_order_and_fallback:
  "generateReasons target candidate \<noteq> []
   \<and> generateReasons target candidate =
      (if cuisine_match target candidate \<or> category_match target candidate
          \<or> tags_match target candidate \<or> ingredients_match target candidate
       then cuisine_reason target candidate @ category_reason target candidate @
            tags_reason target candidate @ ingredients_reason target candidate
       else [''Similar recipe''])"
proof -
  have "generateReasons target candidate \<noteq> []"
    unfolding generateReasons_eq Let_def by simp
  then show ?thesis using generateReasons_cases [of target candidate] by blast
qed

theorem reasons_order_and_fallback_witness:
  "cuisine_reason tiramisu cake @ category_reason tiramisu cake @
     tags_reason tiramisu cake @ ingredients_reason tiramisu cake
   = [''Same cuisine (Italian)'', ''Same category (Dessert)'', ''Similar tags: sweet'',
      ''Similar ingredients: flour'']
   \<and> cuisine_reason tiramisu flan @ category_reason tiramisu flan @
     tags_reason tiramisu flan @ ingredients_reason tiramisu flan
   = generateReasons tiramisu flan
   \<and> generateReasons tiramisu curry = [''Similar recipe'']"
proof -
  have "category_match tiramisu flan" by (simp add: category_match_def tiramisu_def flan_def)
  then show ?thesis
    using reasons_order_and_fallback [of tiramisu cake]
      reasons_order_and_fallback [of tiramisu flan]
      reasons_order_and_fallback [of tiramisu curry]
    by (simp add: example_matches reasons_cake)
qed

text \<open>
  C9.  The score is symmetric: exchanging target and candidate does not change it.
\<close>

theorem score_is_symmetric: "calculateSimilarity a b = calculateSimilarity b a"
proof -
  have "base_score a b = base_score b a" by (rule base_score_commute)
  moreover have "\<And>s w. add_overlap s (lowered (tags a)) (lowered (tags b)) w
      = add_overlap s (lowered (tags b)) (lowered (tags a)) w"
    by (rule add_overlap_commute)
  moreover have "\<And>s w. add_overlap s (lowered (ingredients a)) (lowered (ingredients b)) w
      = add_overlap s (lowered (ingredients b)) (lowered (ingredients a)) w"
    by (rule add_overlap_commute)
  ultimately show ?thesis by (simp only: calculateSimilarity_eq)
qed

theorem score_is_symmetric_witness:
  "calculateSimilarity cake tiramisu = 7205759403792793 / 2 ^ 53"
  using score_is_symmetric [of cake tiramisu] by (simp add: score_cake)

text \<open>
  C10.  No entry of a result of \<open>getRecommendations\<close>, for any limit and so for every
  positive one, carries the fallback reason list: a score above 0.1 is not 0, so the
  cuisine or the category matched or the lower-cased tags or ingredients intersect, and
  the reasons of the entry are the specific reasons of the matching factors.
\<close>

theorem results_have_specific_reasons:
  "\<forall>e \<in> set (getRecommendations target pool limit).
      reasons e \<noteq> [''Similar recipe'']
      \<and> (cuisine_match target (recipe e) \<or> category_match target (recipe e)
           \<or> tags_match target (recipe e) \<or> ingredients_match target (recipe e))
      \<and> reasons e = cuisine_reason target (recipe e) @ category_reason target (recipe e) @
                     tags_reason target (recipe e) @ ingredients_reason target (recipe e)"
proof
  fix e
  assume "e \<in> set (getRecommendations target pool limit)"
  then obtain c where c: "lit_0_1 < calculateSimilarity target c" "e = entry_of target c"
    by (rule in_getRecommendations)
  note m = some_factor_matches [OF c(1)]
  then have r: "generateReasons target c
      = cuisine_reason target c @ category_reason target c @
        tags_reason target c @ ingredients_reason target c"
    by (simp only: generateReasons_cases if_True)
  then have "generateReasons target c \<noteq> [''Similar recipe'']"
    by (simp only: specific_reasons_not_fallback not_False_eq_True)
  then show "reasons e \<noteq> [''Similar recipe'']
      \<and> (cuisine_match target (recipe e) \<or> category_match target (recipe e)
           \<or> tags_match target (recipe e) \<or> ingredients_match target (recipe e))
      \<and> reasons e = cuisine_reason target (recipe e) @ category_reason target (recipe e) @
                     tags_reason target (recipe e) @ ingredients_reason target (recipe e)"
    using m r unfolding c(2) reasons_entry_of recipe_entry_of by blast
qed

theorem results_have_specific_reasons_witness:
  "entry_of tiramisu flan \<in> set (getRecommendations tiramisu catalogue 6)
   \<and> reasons (entry_of tiramisu flan) \<noteq> [''Similar recipe'']
   \<and> category_match tiramisu flan"
proof -
  have m: "entry_of tiramisu flan \<in> set (getRecommendations tiramisu catalogue 6)"
    by (simp add: recommendations_catalogue)
  have "category_match tiramisu flan" by (simp add: category_match_def tiramisu_def flan_def)
  moreover from results_have_specific_reasons [of tiramisu catalogue 6] m
  have "reasons (entry_of tiramisu flan) \<noteq> [''Similar recipe'']" by blast
  ultimately show ?thesis using m by simp
qed

end
